theory Spec2Isabelle
  imports Main
begin

section \<open>JavaScript strings\<close>

text \<open>
  A JavaScript string is modelled as a \<^typ>\<open>string\<close>, one \<^typ>\<open>char\<close> per code unit, over
  the ASCII range: \<open>toUpperCase\<close> maps the letters a to z to A to Z and leaves every other
  character alone, and the white space that \<open>trim\<close> removes is tab, line feed, vertical
  tab, form feed, carriage return and space.
\<close>

definition toUpperCase_char :: "char \<Rightarrow> char" where
  "toUpperCase_char c =
     (let n = (of_char c :: nat) in if 97 \<le> n \<and> n \<le> 122 then char_of (n - 32) else c)"

definition toUpperCase :: "string \<Rightarrow> string" where
  "toUpperCase s = map toUpperCase_char s"

definition isWhiteSpace :: "char \<Rightarrow> bool" where
  "isWhiteSpace c = ((of_char c :: nat) \<in> {9, 10, 11, 12, 13, 32})"

definition trim :: "string \<Rightarrow> string" where
  "trim s = rev (dropWhile isWhiteSpace (rev (dropWhile isWhiteSpace s)))"

text \<open>\<open>s.substring(a, b)\<close> for \<open>a \<le> b\<close>.\<close>

definition substring :: "nat \<Rightarrow> nat \<Rightarrow> string \<Rightarrow> string" where
  "substring a b s = take (b - a) (drop a s)"

text \<open>\<open>s || null\<close>: the empty string is falsy.\<close>

definition or_null :: "string \<Rightarrow> string option" where
  "or_null s = (if s = [] then None else Some s)"

text \<open>\<open>!x\<close> for \<open>x : string | null\<close>.\<close>

definition falsy :: "string option \<Rightarrow> bool" where
  "falsy x = (case x of None \<Rightarrow> True | Some s \<Rightarrow> s = [])"

text \<open>\<open>Date.now()\<close> inside a template string: the number in decimal.\<close>

definition digit_char :: "nat \<Rightarrow> char" where
  "digit_char d = char_of (of_char (CHR ''0'') + d)"

fun decimal :: "nat \<Rightarrow> string" where
  "decimal n =
     (if 10 \<le> n then decimal (n div 10) @ [digit_char (n mod 10)] else [digit_char n])"

declare decimal.simps [simp del]

section \<open>The database schema (supabase/migrations)\<close>

type_synonym uuid = string

record wedding_event =
  e_id :: uuid
  couple_user_id :: uuid
  couple_name :: string
  partner_name :: string
  wedding_date :: string
  event_code :: string

record guest =
  g_id :: uuid
  g_wedding_event_id :: uuid
  g_guest_name :: "string option"
  session_token :: string
  photos_remaining :: int
  has_unlocked_feed :: bool

record photo =
  p_id :: uuid
  p_wedding_event_id :: uuid
  guest_id :: uuid
  image_url :: string
  p_guest_name :: "string option"
  captured_at :: nat
  caption :: "string option"

text \<open>
  The column default of \<open>guests.photos_remaining\<close>: 10 in the first migration,
  20 after migration 20260123003258.
\<close>

datatype schema_level = Initial_schema | Raised_default

definition DEFAULT_photos_remaining :: "schema_level \<Rightarrow> int" where
  "DEFAULT_photos_remaining l = (case l of Initial_schema \<Rightarrow> 10 | Raised_default \<Rightarrow> 20)"

text \<open>
  The backend: the three tables as lists of rows, the objects of the storage bucket
  \<open>wedding-photos\<close> by name, and the schema level.
\<close>

record backend =
  wedding_events :: "wedding_event list"
  guests :: "guest list"
  photos :: "photo list"
  objects :: "string set"
  schema :: schema_level

datatype error =
    Unavailable
  | Duplicate_key
  | Check_violation
  | Already_exists
  | No_single_row

text \<open>
  \<open>CONSTRAINT photos_caption_length CHECK (caption IS NULL OR
  (char_length(caption) >= 1 AND char_length(caption) <= 150))\<close>
\<close>

definition photos_caption_length :: "string option \<Rightarrow> bool" where
  "photos_caption_length c =
     (case c of None \<Rightarrow> True | Some s \<Rightarrow> 1 \<le> length s \<and> length s \<le> 150)"

section \<open>Backend calls\<close>

text \<open>
  Every call takes a flag \<open>fails\<close>: the service refuses the call (network, policy) and
  returns an error without changing anything. Primary keys, unique columns and the check
  constraint are enforced by the calls themselves.
\<close>

definition single :: "'a list \<Rightarrow> error + 'a" where
  "single rows = (case rows of [r] \<Rightarrow> Inr r | _ \<Rightarrow> Inl No_single_row)"

definition maybeSingle :: "'a list \<Rightarrow> error + 'a option" where
  "maybeSingle rows =
     (case rows of [] \<Rightarrow> Inr None | [r] \<Rightarrow> Inr (Some r) | _ \<Rightarrow> Inl No_single_row)"

definition storage_upload :: "bool \<Rightarrow> string \<Rightarrow> backend \<Rightarrow> error + backend" where
  "storage_upload fails name db =
     (if fails then Inl Unavailable
      else if name \<in> objects db then Inl Already_exists
      else Inr (db\<lparr>objects := insert name (objects db)\<rparr>))"

definition storage_remove :: "bool \<Rightarrow> string list \<Rightarrow> backend \<Rightarrow> error + backend" where
  "storage_remove fails names db =
     (if fails then Inl Unavailable
      else Inr (db\<lparr>objects := objects db - set names\<rparr>))"

definition from_photos_insert :: "bool \<Rightarrow> photo \<Rightarrow> backend \<Rightarrow> error + backend" where
  "from_photos_insert fails row db =
     (if fails then Inl Unavailable
      else if p_id row \<in> set (map p_id (photos db)) then Inl Duplicate_key
      else if \<not> photos_caption_length (caption row) then Inl Check_violation
      else Inr (db\<lparr>photos := photos db @ [row]\<rparr>))"

definition from_photos_update_caption ::
  "bool \<Rightarrow> uuid \<Rightarrow> string option \<Rightarrow> backend \<Rightarrow> error + backend" where
  "from_photos_update_caption fails pid c db =
     (if fails then Inl Unavailable
      else if pid \<in> set (map p_id (photos db)) \<and> \<not> photos_caption_length c
        then Inl Check_violation
      else Inr (db\<lparr>photos :=
        map (\<lambda>r. if p_id r = pid then r\<lparr>caption := c\<rparr> else r) (photos db)\<rparr>))"

definition from_photos_delete :: "bool \<Rightarrow> uuid \<Rightarrow> backend \<Rightarrow> error + backend" where
  "from_photos_delete fails pid db =
     (if fails then Inl Unavailable
      else Inr (db\<lparr>photos := filter (\<lambda>r. p_id r \<noteq> pid) (photos db)\<rparr>))"

definition from_guests_select :: "bool \<Rightarrow> uuid \<Rightarrow> backend \<Rightarrow> error + guest" where
  "from_guests_select fails gid db =
     (if fails then Inl Unavailable
      else single (filter (\<lambda>r. g_id r = gid) (guests db)))"

definition from_guests_update ::
  "bool \<Rightarrow> uuid \<Rightarrow> (guest \<Rightarrow> guest) \<Rightarrow> backend \<Rightarrow> error + backend" where
  "from_guests_update fails gid upd db =
     (if fails then Inl Unavailable
      else Inr (db\<lparr>guests := map (\<lambda>r. if g_id r = gid then upd r else r) (guests db)\<rparr>))"

definition from_guests_insert :: "bool \<Rightarrow> guest \<Rightarrow> backend \<Rightarrow> error + backend" where
  "from_guests_insert fails row db =
     (if fails then Inl Unavailable
      else if g_id row \<in> set (map g_id (guests db))
            \<or> session_token row \<in> set (map session_token (guests db))
        then Inl Duplicate_key
      else Inr (db\<lparr>guests := guests db @ [row]\<rparr>))"

definition from_wedding_events_select_by_code ::
  "bool \<Rightarrow> string \<Rightarrow> backend \<Rightarrow> error + wedding_event option" where
  "from_wedding_events_select_by_code fails code db =
     (if fails then Inl Unavailable
      else maybeSingle (filter (\<lambda>r. event_code r = code) (wedding_events db)))"

definition from_wedding_events_select :: "bool \<Rightarrow> uuid \<Rightarrow> backend \<Rightarrow> error + wedding_event" where
  "from_wedding_events_select fails eid db =
     (if fails then Inl Unavailable
      else single (filter (\<lambda>r. e_id r = eid) (wedding_events db)))"

definition from_wedding_events_insert :: "bool \<Rightarrow> wedding_event \<Rightarrow> backend \<Rightarrow> error + backend" where
  "from_wedding_events_insert fails row db =
     (if fails then Inl Unavailable
      else if e_id row \<in> set (map e_id (wedding_events db))
            \<or> event_code row \<in> set (map event_code (wedding_events db))
        then Inl Duplicate_key
      else Inr (db\<lparr>wedding_events := wedding_events db @ [row]\<rparr>))"

section \<open>Toasts\<close>

datatype toast =
    Moment_captured int
  | Upload_failed error
  | Caption_updated
  | Failed_to_update_caption error
  | Photo_deleted
  | Failed_to_delete_photo error
  | Event_not_found
  | Error_joining error
  | Welcome string string
  | Wedding_created
  | Error_creating error
  | Session_expired

section \<open>PhotoUpload.tsx\<close>

record selected_file =
  f_name :: string
  f_type :: string

record PhotoUploadProps =
  guestId :: uuid
  eventId :: uuid
  photosRemaining :: int
  guestName :: "string option"

definition MAX_CAPTION_LENGTH :: nat where
  "MAX_CAPTION_LENGTH = 150"

text \<open>
  The caption text area: \<open>if (e.target.value.length <= MAX_CAPTION_LENGTH) setCaption(e.target.value)\<close>.
\<close>

definition onChange :: "string \<Rightarrow> string \<Rightarrow> string" where
  "onChange caption_state v = (if length v \<le> MAX_CAPTION_LENGTH then v else caption_state)"

text \<open>\<open>selectedFile.name.replace(/[^a-zA-Z0-9.-]/g, '_')\<close>\<close>

definition sanitize_char :: "char \<Rightarrow> char" where
  "sanitize_char c =
     (let n = (of_char c :: nat)
      in if (97 \<le> n \<and> n \<le> 122) \<or> (65 \<le> n \<and> n \<le> 90) \<or> (48 \<le> n \<and> n \<le> 57)
            \<or> n = 46 \<or> n = 45
         then c else CHR ''_'')"

text \<open>
  What the environment decides during one upload: \<open>Date.now()\<close>, the id and the time stamp
  the database gives the new row, and which of the three backend calls are refused.
\<close>

record upload_env =
  date_now :: nat
  new_photo_id :: uuid
  db_now :: nat
  upload_fails :: bool
  insert_fails :: bool
  update_fails :: bool

definition handleUpload ::
  "PhotoUploadProps \<Rightarrow> selected_file option \<Rightarrow> string \<Rightarrow> upload_env \<Rightarrow> backend
     \<Rightarrow> toast option \<times> backend" where
  "handleUpload props selectedFile caption_state env db =
     (case selectedFile of
        None \<Rightarrow> (None, db)
      | Some f \<Rightarrow>
          (let sanitizedName = map sanitize_char (f_name f);
               fileName = eventId props @ ''/'' @ guestId props @ ''/''
                            @ decimal (date_now env) @ ''-'' @ sanitizedName
           in (case storage_upload (upload_fails env) fileName db of
                 Inl uploadError \<Rightarrow> (Some (Upload_failed uploadError), db)
               | Inr db1 \<Rightarrow>
                   (let trimmedCaption = trim caption_state
                    in (case from_photos_insert (insert_fails env)
                               \<lparr>p_id = new_photo_id env,
                                p_wedding_event_id = eventId props,
                                guest_id = guestId props,
                                image_url = fileName,
                                p_guest_name = guestName props,
                                captured_at = db_now env,
                                caption = (if length trimmedCaption > 0
                                           then Some trimmedCaption else None)\<rparr> db1 of
                          Inl photoError \<Rightarrow> (Some (Upload_failed photoError), db1)
                        | Inr db2 \<Rightarrow>
                            (case from_guests_update (update_fails env) (guestId props)
                                    (\<lambda>r. r\<lparr>photos_remaining := photosRemaining props - 1,
                                           has_unlocked_feed := True\<rparr>) db2 of
                               Inl updateError \<Rightarrow> (Some (Upload_failed updateError), db2)
                             | Inr db3 \<Rightarrow>
                                 (Some (Moment_captured (photosRemaining props - 1)),
                                  db3)))))))"

section \<open>PhotoSwipeFeed.tsx\<close>

text \<open>\<open>select("*").eq("wedding_event_id", eventId).order("captured_at", {ascending: false})\<close>\<close>

definition fetchPhotos :: "uuid \<Rightarrow> backend \<Rightarrow> photo list" where
  "fetchPhotos event db =
     rev (sort_key captured_at (filter (\<lambda>p. p_wedding_event_id p = event) (photos db)))"

text \<open>\<open>const isOwner = currentGuestId && photo.guest_id === currentGuestId\<close>\<close>

definition isOwner :: "uuid option \<Rightarrow> photo \<Rightarrow> bool" where
  "isOwner currentGuestId p = (\<not> falsy currentGuestId \<and> Some (guest_id p) = currentGuestId)"

text \<open>\<open>setEditingPhotoId(photo.id); setEditCaption(photo.caption || "")\<close>\<close>

definition handleEditCaption :: "photo \<Rightarrow> uuid option \<times> string" where
  "handleEditCaption p = (Some (p_id p), (case caption p of None \<Rightarrow> [] | Some c \<Rightarrow> c))"

definition handleSaveCaption ::
  "uuid option \<Rightarrow> string \<Rightarrow> bool \<Rightarrow> backend \<Rightarrow> toast option \<times> backend" where
  "handleSaveCaption editingPhotoId editCaption fails db =
     (case editingPhotoId of
        None \<Rightarrow> (None, db)
      | Some pid \<Rightarrow>
          (if pid = [] then (None, db)
           else
             (let trimmedCaption = trim editCaption
              in (case from_photos_update_caption fails pid
                         (if length trimmedCaption > 0 then Some trimmedCaption else None) db of
                    Inl e \<Rightarrow> (Some (Failed_to_update_caption e), db)
                  | Inr db1 \<Rightarrow> (Some Caption_updated, db1)))))"

text \<open>Which of the four backend calls of one delete are refused.\<close>

record delete_env =
  remove_fails :: bool
  delete_fails :: bool
  select_fails :: bool
  restore_fails :: bool

text \<open>
  The credit restore of \<open>handleDeletePhoto\<close>: read the guest's \<open>photos_remaining\<close>, write
  \<open>Math.min(guestData.photos_remaining + 1, 10)\<close>; a failed read skips the write, and the
  result of the write is not looked at.
\<close>

definition restore_credit :: "delete_env \<Rightarrow> uuid \<Rightarrow> backend \<Rightarrow> backend" where
  "restore_credit env gid db =
     (case from_guests_select (select_fails env) gid db of
        Inl guestFetchError \<Rightarrow> db
      | Inr guestData \<Rightarrow>
          (let newRemaining = min (photos_remaining guestData + 1) 10
           in (case from_guests_update (restore_fails env) gid
                      (\<lambda>r. r\<lparr>photos_remaining := newRemaining\<rparr>) db of
                 Inl e \<Rightarrow> db
               | Inr d \<Rightarrow> d)))"

definition handleDeletePhoto ::
  "uuid option \<Rightarrow> uuid option \<Rightarrow> photo list \<Rightarrow> delete_env \<Rightarrow> backend
     \<Rightarrow> toast option \<times> backend" where
  "handleDeletePhoto deletePhotoId currentGuestId photos_state env db =
     (if falsy deletePhotoId \<or> falsy currentGuestId then (None, db)
      else
        (case (deletePhotoId, currentGuestId) of
           (Some pid, Some gid) \<Rightarrow>
             (case find (\<lambda>p. p_id p = pid) photos_state of
                None \<Rightarrow> (None, db)
              | Some photoToDelete \<Rightarrow>
                  (let db1 =
                     (case storage_remove (remove_fails env) [image_url photoToDelete] db of
                        Inl storageError \<Rightarrow> db
                      | Inr d \<Rightarrow> d)
                   in (case from_photos_delete (delete_fails env) pid db1 of
                         Inl dbError \<Rightarrow> (Some (Failed_to_delete_photo dbError), db1)
                       | Inr db2 \<Rightarrow> (Some Photo_deleted, restore_credit env gid db2))))
         | _ \<Rightarrow> (None, db)))"

section \<open>Index.tsx: creating an event\<close>

text \<open>
  \<open>random36\<close> stands for \<open>Math.random().toString(36)\<close>, a string such as \<open>0.4fzyo82mvyr\<close>.
\<close>

definition generateEventCode :: "string \<Rightarrow> string \<Rightarrow> string \<Rightarrow> string" where
  "generateEventCode coupleName partnerName random36 =
     (let names = toUpperCase (substring 0 3 coupleName @ substring 0 3 partnerName);
          random = toUpperCase (substring 2 6 random36)
      in names @ ''-'' @ random)"

record create_env =
  random36 :: string
  new_event_id :: uuid
  create_fails :: bool

definition handleCreateEvent ::
  "uuid option \<Rightarrow> string \<Rightarrow> string \<Rightarrow> string \<Rightarrow> create_env \<Rightarrow> backend
     \<Rightarrow> toast option \<times> backend" where
  "handleCreateEvent user coupleName partnerName weddingDate env db =
     (case user of
        None \<Rightarrow> (None, db)
      | Some user_id \<Rightarrow>
          (let eventCode = generateEventCode coupleName partnerName (random36 env)
           in (case from_wedding_events_insert (create_fails env)
                      \<lparr>e_id = new_event_id env,
                       couple_user_id = user_id,
                       couple_name = coupleName,
                       partner_name = partnerName,
                       wedding_date = weddingDate,
                       event_code = eventCode\<rparr> db of
                 Inl e \<Rightarrow> (Some (Error_creating e), db)
               | Inr db1 \<Rightarrow> (Some Wedding_created, db1))))"

section \<open>JoinWedding: joining an event by code\<close>

record GuestSession =
  gs_guestId :: uuid
  gs_weddingEventId :: uuid
  gs_sessionToken :: string
  gs_guestName :: "string option"

text \<open>
  What the environment decides during one join: \<open>crypto.randomUUID()\<close>, the id the database
  gives the new guest row, and which of the two backend calls are refused.
\<close>

record join_env =
  randomUUID :: string
  new_guest_id :: uuid
  lookup_fails :: bool
  join_fails :: bool

definition handleJoin ::
  "string \<Rightarrow> string \<Rightarrow> join_env \<Rightarrow> backend \<Rightarrow> toast \<times> GuestSession option \<times> backend" where
  "handleJoin eventCode guestName_state env db =
     (case from_wedding_events_select_by_code (lookup_fails env)
             (trim (toUpperCase eventCode)) db of
        Inl eventError \<Rightarrow> (Event_not_found, None, db)
      | Inr None \<Rightarrow> (Event_not_found, None, db)
      | Inr (Some event) \<Rightarrow>
          (let sessionToken = randomUUID env
           in (case from_guests_insert (join_fails env)
                      \<lparr>g_id = new_guest_id env,
                       g_wedding_event_id = e_id event,
                       g_guest_name = or_null (trim guestName_state),
                       session_token = sessionToken,
                       photos_remaining = DEFAULT_photos_remaining (schema db),
                       has_unlocked_feed = False\<rparr> db of
                 Inl guestError \<Rightarrow> (Error_joining guestError, None, db)
               | Inr db1 \<Rightarrow>
                   (Welcome (couple_name event) (partner_name event),
                    Some \<lparr>gs_guestId = new_guest_id env,
                          gs_weddingEventId = e_id event,
                          gs_sessionToken = sessionToken,
                          gs_guestName = or_null (trim guestName_state)\<rparr>,
                    db1))))"

section \<open>Guest.tsx: the guest's page\<close>

text \<open>
  \<open>fetchData\<close> reads the guest row and the event row of the stored session; if either read
  fails the session is dropped.
\<close>

definition fetchData :: "GuestSession \<Rightarrow> backend \<Rightarrow> (guest \<times> wedding_event) option" where
  "fetchData guestSession db =
     (case from_guests_select False (gs_guestId guestSession) db of
        Inl e \<Rightarrow> None
      | Inr guestData \<Rightarrow>
          (case from_wedding_events_select False (gs_weddingEventId guestSession) db of
             Inl e \<Rightarrow> None
           | Inr weddingEvent \<Rightarrow> Some (guestData, weddingEvent)))"

text \<open>
  The capture button: in the locked view it is \<open>disabled={guestData.photos_remaining === 0}\<close>,
  in the unlocked view it is rendered under \<open>guestData.photos_remaining > 0\<close>.
\<close>

definition capture_offered :: "guest \<Rightarrow> bool" where
  "capture_offered guestData =
     (if \<not> has_unlocked_feed guestData then photos_remaining guestData \<noteq> 0
      else photos_remaining guestData > 0)"

section \<open>What a user can do\<close>

text \<open>
  One action is one visit of a page: the page loads its data, the user presses a control
  that the page offers, and the handler runs. The edit and delete buttons of the feed are
  rendered for the photos that \<open>isOwner\<close> accepts. Typing into a caption field is a list
  of \<open>onChange\<close> values.
\<close>

datatype action =
    Join string string join_env
  | Capture GuestSession "selected_file option" "string list" upload_env
  | Save_caption GuestSession uuid "string list" bool
  | Delete GuestSession uuid delete_env

definition capture ::
  "GuestSession \<Rightarrow> selected_file option \<Rightarrow> string list \<Rightarrow> upload_env \<Rightarrow> backend
     \<Rightarrow> toast option \<times> backend" where
  "capture guestSession selectedFile typed env db =
     (case fetchData guestSession db of
        None \<Rightarrow> (Some Session_expired, db)
      | Some (guestData, weddingEvent) \<Rightarrow>
          (if capture_offered guestData
           then handleUpload
                  \<lparr>guestId = gs_guestId guestSession,
                   eventId = gs_weddingEventId guestSession,
                   photosRemaining = photos_remaining guestData,
                   guestName = g_guest_name guestData\<rparr>
                  selectedFile (foldl onChange [] typed) env db
           else (None, db)))"

text \<open>
  Modelled from the spec: the revision of \<open>Guest.tsx\<close> that passes \<open>currentGuestId\<close> to
  the feed is not among the sources. Delete and caption edit are owner only, and the feed is
  what a guest sees after the unlock, so the feed is taken to be mounted in the unlocked view
  with the session's guest id. The result is the photo whose owner button the user presses,
  if that button is rendered.
\<close>

definition own_photo_in_feed :: "GuestSession \<Rightarrow> uuid \<Rightarrow> backend \<Rightarrow> photo option" where
  "own_photo_in_feed guestSession pid db =
     (case fetchData guestSession db of
        None \<Rightarrow> None
      | Some (guestData, weddingEvent) \<Rightarrow>
          (if has_unlocked_feed guestData
           then (case find (\<lambda>p. p_id p = pid) (fetchPhotos (gs_weddingEventId guestSession) db) of
                   None \<Rightarrow> None
                 | Some p \<Rightarrow> (if isOwner (Some (gs_guestId guestSession)) p then Some p else None))
           else None))"

definition save_caption ::
  "GuestSession \<Rightarrow> uuid \<Rightarrow> string list \<Rightarrow> bool \<Rightarrow> backend \<Rightarrow> toast option \<times> backend" where
  "save_caption guestSession pid typed fails db =
     (case own_photo_in_feed guestSession pid db of
        None \<Rightarrow> (None, db)
      | Some p \<Rightarrow>
          (case handleEditCaption p of
             (editingPhotoId, editCaption) \<Rightarrow>
               handleSaveCaption editingPhotoId (foldl onChange editCaption typed) fails db))"

definition delete_photo ::
  "GuestSession \<Rightarrow> uuid \<Rightarrow> delete_env \<Rightarrow> backend \<Rightarrow> toast option \<times> backend" where
  "delete_photo guestSession pid env db =
     (case own_photo_in_feed guestSession pid db of
        None \<Rightarrow> (None, db)
      | Some p \<Rightarrow>
          handleDeletePhoto (Some (p_id p)) (Some (gs_guestId guestSession))
            (fetchPhotos (gs_weddingEventId guestSession) db) env db)"

fun step :: "action \<Rightarrow> backend \<Rightarrow> toast option \<times> backend" where
  "step (Join eventCode guestName_state env) db =
     (case handleJoin eventCode guestName_state env db of (t, s, db1) \<Rightarrow> (Some t, db1))"
| "step (Capture guestSession selectedFile typed env) db =
     capture guestSession selectedFile typed env db"
| "step (Save_caption guestSession pid typed fails) db =
     save_caption guestSession pid typed fails db"
| "step (Delete guestSession pid env) db = delete_photo guestSession pid env db"

fun run :: "action list \<Rightarrow> backend \<Rightarrow> backend" where
  "run [] db = db"
| "run (a # as) db = run as (snd (step a db))"

text \<open>
  The uploads and the deletes of guest \<open>g\<close> that a run reports as done
  (\<open>Moment captured!\<close>, \<open>Photo deleted\<close>).
\<close>

fun is_upload_of :: "uuid \<Rightarrow> action \<Rightarrow> bool" where
  "is_upload_of g (Capture guestSession selectedFile typed env) = (gs_guestId guestSession = g)"
| "is_upload_of g a = False"


definition captured :: "toast option \<Rightarrow> bool" where
  "captured t = (case t of Some (Moment_captured n) \<Rightarrow> True | _ \<Rightarrow> False)"

fun uploads_done :: "uuid \<Rightarrow> action list \<Rightarrow> backend \<Rightarrow> nat" where
  "uploads_done g [] db = 0"
| "uploads_done g (a # as) db =
     (if is_upload_of g a \<and> captured (fst (step a db)) then 1 else 0)
       + uploads_done g as (snd (step a db))"


text \<open>
  The calls on the row of guest \<open>g\<close> are not refused in this action: the update at the end
  of an upload of \<open>g\<close>, the read and the write of the credit restore of a delete of \<open>g\<close>.
\<close>

fun guest_row_calls_pass :: "uuid \<Rightarrow> action \<Rightarrow> bool" where
  "guest_row_calls_pass g (Capture guestSession selectedFile typed env) =
     (gs_guestId guestSession = g \<longrightarrow> \<not> update_fails env)"
| "guest_row_calls_pass g (Delete guestSession pid env) =
     (gs_guestId guestSession = g \<longrightarrow> \<not> select_fails env \<and> \<not> restore_fails env)"
| "guest_row_calls_pass g a = True"

text \<open>The photos of guest \<open>g\<close> in the database.\<close>

definition own_photos :: "uuid \<Rightarrow> backend \<Rightarrow> photo list" where
  "own_photos g db = filter (\<lambda>p. guest_id p = g) (photos db)"

text \<open>The invariant \<open>photos_remaining >= 0\<close>, for every guest row.\<close>

definition quota_nonneg :: "backend \<Rightarrow> bool" where
  "quota_nonneg db = list_all (\<lambda>r. 0 \<le> photos_remaining r) (guests db)"

text \<open>The check constraint \<open>photos_caption_length\<close>, for every photo row.\<close>

definition captions_valid :: "backend \<Rightarrow> bool" where
  "captions_valid db = list_all (\<lambda>p. photos_caption_length (caption p)) (photos db)"

section \<open>A page holds what it last read\<close>

text \<open>
  \<open>Guest.tsx\<close> keeps \<open>guestData\<close> from its last \<open>fetchData\<close> (when the page is mounted, and
  after an upload made from this page) and passes \<open>guestData.photos_remaining\<close> to
  \<open>PhotoUpload\<close>; \<open>PhotoSwipeFeed\<close> keeps the photo list in its own state. So what a page acts
  on can be older than the database, for instance when the guest has the page open twice.
  A page action carries what its page holds.
\<close>

definition upload_from_page ::
  "guest \<Rightarrow> GuestSession \<Rightarrow> selected_file option \<Rightarrow> string list \<Rightarrow> upload_env \<Rightarrow> backend
     \<Rightarrow> toast option \<times> backend" where
  "upload_from_page guestData guestSession selectedFile typed env db =
     (if capture_offered guestData
      then handleUpload
             \<lparr>guestId = gs_guestId guestSession,
              eventId = gs_weddingEventId guestSession,
              photosRemaining = photos_remaining guestData,
              guestName = g_guest_name guestData\<rparr>
             selectedFile (foldl onChange [] typed) env db
      else (None, db))"

text \<open>
  Modelled from the spec: the revision of \<open>Guest.tsx\<close> that passes \<open>currentGuestId\<close> to
  the feed is not among the sources. Delete and caption edit are owner only, and the feed is
  what a guest sees after the unlock, so the feed is taken to be mounted in the unlocked view
  with the session's guest id. The result is the photo, in the list the feed holds, whose
  owner button the user presses, if that button is rendered.
\<close>

definition owner_button :: "guest \<Rightarrow> GuestSession \<Rightarrow> photo list \<Rightarrow> uuid \<Rightarrow> photo option" where
  "owner_button guestData guestSession photos_state pid =
     (if has_unlocked_feed guestData
      then (case find (\<lambda>p. p_id p = pid) photos_state of
              None \<Rightarrow> None
            | Some p \<Rightarrow> (if isOwner (Some (gs_guestId guestSession)) p then Some p else None))
      else None)"

definition save_from_feed ::
  "guest \<Rightarrow> GuestSession \<Rightarrow> photo list \<Rightarrow> uuid \<Rightarrow> string list \<Rightarrow> bool \<Rightarrow> backend
     \<Rightarrow> toast option \<times> backend" where
  "save_from_feed guestData guestSession photos_state pid typed fails db =
     (case owner_button guestData guestSession photos_state pid of
        None \<Rightarrow> (None, db)
      | Some p \<Rightarrow>
          (case handleEditCaption p of
             (editingPhotoId, editCaption) \<Rightarrow>
               handleSaveCaption editingPhotoId (foldl onChange editCaption typed) fails db))"

definition delete_from_feed ::
  "guest \<Rightarrow> GuestSession \<Rightarrow> photo list \<Rightarrow> uuid \<Rightarrow> delete_env \<Rightarrow> backend
     \<Rightarrow> toast option \<times> backend" where
  "delete_from_feed guestData guestSession photos_state pid env db =
     (case owner_button guestData guestSession photos_state pid of
        None \<Rightarrow> (None, db)
      | Some p \<Rightarrow>
          handleDeletePhoto (Some (p_id p)) (Some (gs_guestId guestSession)) photos_state env db)"

datatype page_action =
    Page_join string string join_env
  | Page_upload guest GuestSession "selected_file option" "string list" upload_env
  | Page_save guest GuestSession "photo list" uuid "string list" bool
  | Page_delete guest GuestSession "photo list" uuid delete_env

fun page_step :: "page_action \<Rightarrow> backend \<Rightarrow> toast option \<times> backend" where
  "page_step (Page_join eventCode guestName_state env) db =
     (case handleJoin eventCode guestName_state env db of (t, s, db1) \<Rightarrow> (Some t, db1))"
| "page_step (Page_upload guestData guestSession selectedFile typed env) db =
     upload_from_page guestData guestSession selectedFile typed env db"
| "page_step (Page_save guestData guestSession photos_state pid typed fails) db =
     save_from_feed guestData guestSession photos_state pid typed fails db"
| "page_step (Page_delete guestData guestSession photos_state pid env) db =
     delete_from_feed guestData guestSession photos_state pid env db"

fun page_run :: "page_action list \<Rightarrow> backend \<Rightarrow> backend" where
  "page_run [] db = db"
| "page_run (a # as) db = page_run as (snd (page_step a db))"

fun is_page_upload_of :: "uuid \<Rightarrow> page_action \<Rightarrow> bool" where
  "is_page_upload_of g (Page_upload guestData guestSession selectedFile typed env) =
     (gs_guestId guestSession = g)"
| "is_page_upload_of g a = False"


fun page_uploads_done :: "uuid \<Rightarrow> page_action list \<Rightarrow> backend \<Rightarrow> nat" where
  "page_uploads_done g [] db = 0"
| "page_uploads_done g (a # as) db =
     (if is_page_upload_of g a \<and> captured (fst (page_step a db)) then 1 else 0)
       + page_uploads_done g as (snd (page_step a db))"





text \<open>
  For stating what \<open>handleUpload\<close> returns: the object name it uploads to and the photo row
  it inserts.
\<close>

definition uploaded_name :: "PhotoUploadProps \<Rightarrow> selected_file \<Rightarrow> upload_env \<Rightarrow> string" where
  "uploaded_name props f env =
     eventId props @ ''/'' @ guestId props @ ''/'' @ decimal (date_now env) @ ''-''
       @ map sanitize_char (f_name f)"

definition inserted_row ::
  "PhotoUploadProps \<Rightarrow> selected_file \<Rightarrow> string \<Rightarrow> upload_env \<Rightarrow> photo" where
  "inserted_row props f caption_state env =
     \<lparr>p_id = new_photo_id env,
      p_wedding_event_id = eventId props,
      guest_id = guestId props,
      image_url = uploaded_name props f env,
      p_guest_name = guestName props,
      captured_at = db_now env,
      caption = (if length (trim caption_state) > 0 then Some (trim caption_state) else None)\<rparr>"

section \<open>A concrete wedding\<close>

definition demo_event :: wedding_event where
  "demo_event = \<lparr>e_id = ''e1'', couple_user_id = ''u1'', couple_name = ''Sarah'',
     partner_name = ''James'', wedding_date = ''2026-06-01'', event_code = ''SARJAM-A1B2''\<rparr>"

definition demo_guest :: guest where
  "demo_guest = \<lparr>g_id = ''g1'', g_wedding_event_id = ''e1'', g_guest_name = Some ''Ann'',
     session_token = ''t1'', photos_remaining = 19, has_unlocked_feed = True\<rparr>"

definition demo_photo :: photo where
  "demo_photo = \<lparr>p_id = ''p1'', p_wedding_event_id = ''e1'', guest_id = ''g1'',
     image_url = ''e1/g1/1-a.jpg'', p_guest_name = Some ''Ann'', captured_at = 1,
     caption = Some ''hi''\<rparr>"

definition demo_db :: backend where
  "demo_db = \<lparr>wedding_events = [demo_event], guests = [demo_guest], photos = [demo_photo],
     objects = {''e1/g1/1-a.jpg''}, schema = Raised_default\<rparr>"

definition demo_session :: GuestSession where
  "demo_session = \<lparr>gs_guestId = ''g1'', gs_weddingEventId = ''e1'', gs_sessionToken = ''t1'',
     gs_guestName = Some ''Ann''\<rparr>"

definition delete_env_of :: "bool \<Rightarrow> bool \<Rightarrow> bool \<Rightarrow> bool \<Rightarrow> delete_env" where
  "delete_env_of a b c d = \<lparr>remove_fails = a, delete_fails = b, select_fails = c, restore_fails = d\<rparr>"

definition demo_file :: selected_file where
  "demo_file = \<lparr>f_name = ''my photo.jpg'', f_type = ''image/jpeg''\<rparr>"

definition demo_upload_env :: upload_env where
  "demo_upload_env = \<lparr>date_now = 1700, new_photo_id = ''p2'', db_now = 2,
     upload_fails = False, insert_fails = False, update_fails = False\<rparr>"

definition demo_db_after_upload :: backend where
  "demo_db_after_upload = demo_db
     \<lparr>guests := [demo_guest\<lparr>photos_remaining := 18\<rparr>],
      photos := [demo_photo,
        \<lparr>p_id = ''p2'', p_wedding_event_id = ''e1'', guest_id = ''g1'',
         image_url = ''e1/g1/1700-my_photo.jpg'', p_guest_name = Some ''Ann'', captured_at = 2,
         caption = Some ''cheers''\<rparr>],
      objects := {''e1/g1/1700-my_photo.jpg'', ''e1/g1/1-a.jpg''}\<rparr>"

definition demo_db0 :: backend where
  "demo_db0 = \<lparr>wedding_events = [demo_event], guests = [], photos = [], objects = {},
     schema = Initial_schema\<rparr>"

definition demo_join :: action where
  "demo_join = Join ''sarjam-a1b2 '' '' Ann''
     \<lparr>randomUUID = ''t1'', new_guest_id = ''g1'', lookup_fails = False, join_fails = False\<rparr>"

definition demo_capture :: action where
  "demo_capture = Capture demo_session (Some demo_file) ['' cheers ''] demo_upload_env"

definition demo_delete :: action where
  "demo_delete = Delete demo_session ''p2'' (delete_env_of False False False False)"

definition demo_guest0 :: guest where
  "demo_guest0 = \<lparr>g_id = ''g1'', g_wedding_event_id = ''e1'', g_guest_name = Some ''Ann'',
     session_token = ''t1'', photos_remaining = 10, has_unlocked_feed = False\<rparr>"



definition demo_create_env :: create_env where
  "demo_create_env = \<lparr>random36 = ''0.1a2b3c'', new_event_id = ''e2'', create_fails = False\<rparr>"

definition demo_db_padded :: backend where
  "demo_db_padded =
     snd (handleCreateEvent (Some ''u2'') '' Al'' ''Bob'' ''2026-07-01'' demo_create_env demo_db0)"

definition demo_join_env :: join_env where
  "demo_join_env =
     \<lparr>randomUUID = ''t9'', new_guest_id = ''g9'', lookup_fails = False, join_fails = False\<rparr>"

text \<open>
  The guest of \<open>demo_db0\<close> after joining, and page actions of that guest: an upload from a
  page that holds \<open>guestData\<close>, and a delete of the photo \<open>p2\<close> from a feed that holds it.
\<close>

definition demo_db_joined :: backend where
  "demo_db_joined = demo_db0\<lparr>guests := [demo_guest0]\<rparr>"

definition demo_upload_env2 :: upload_env where
  "demo_upload_env2 = \<lparr>date_now = 1800, new_photo_id = ''p3'', db_now = 3,
     upload_fails = False, insert_fails = False, update_fails = False\<rparr>"

definition demo_page_upload :: "guest \<Rightarrow> upload_env \<Rightarrow> page_action" where
  "demo_page_upload guestData env =
     Page_upload guestData demo_session (Some demo_file) ['' cheers ''] env"




text \<open>
  The guest has the page open twice, both loaded at \<open>photos_remaining = 10\<close>, and uploads
  one photo from each.
\<close>

definition demo_two_pages :: "page_action list" where
  "demo_two_pages =
     [demo_page_upload demo_guest0 demo_upload_env,
      demo_page_upload demo_guest0 demo_upload_env2]"

text \<open>The props of \<open>PhotoUpload\<close> on a page of \<open>demo_guest\<close>.\<close>

definition demo_props :: PhotoUploadProps where
  "demo_props = \<lparr>guestId = ''g1'', eventId = ''e1'', photosRemaining = 19,
     guestName = Some ''Ann''\<rparr>"

text \<open>A photo row with a new id and a caption of 151 characters.\<close>

definition demo_long_caption_photo :: photo where
  "demo_long_caption_photo =
     demo_photo\<lparr>p_id := ''p9'', caption := Some (replicate 151 (CHR ''a''))\<rparr>"

section \<open>Single calls\<close>

lemmas demo_defs =
  demo_event_def demo_guest_def demo_photo_def demo_db_def demo_session_def delete_env_of_def

lemma filter_update_same:
  "(\<And>r. g_id (f r) = g_id r) \<Longrightarrow> filter (\<lambda>r. g_id r = gid) (map (\<lambda>r. if g_id r = gid then f r else r) xs)
   = map f (filter (\<lambda>r. g_id r = gid) xs)"
  by (induction xs) auto

text \<open>
  Claim C4. When the owner of a photo deletes it and no backend call is refused, the photo
  row and the storage object are removed and the guest's \<open>photos_remaining\<close> becomes
  \<open>min (photos_remaining + 1) 10\<close>. The cap is the literal 10 of the handler: the schema
  level, and with it the default quota of 20, plays no part.
\<close>

theorem delete_removes_and_restores:
  assumes "pid \<noteq> []" and "gid \<noteq> []"
    and "find (\<lambda>p. p_id p = pid) photos_state = Some ph"
    and "isOwner (Some gid) ph"
    and "\<not> remove_fails env" and "\<not> delete_fails env"
    and "\<not> select_fails env" and "\<not> restore_fails env"
    and "from_guests_select False gid db = Inr g"
  shows "fst (handleDeletePhoto (Some pid) (Some gid) photos_state env db) = Some Photo_deleted
    \<and> photos (snd (handleDeletePhoto (Some pid) (Some gid) photos_state env db))
        = filter (\<lambda>r. p_id r \<noteq> pid) (photos db)
    \<and> objects (snd (handleDeletePhoto (Some pid) (Some gid) photos_state env db))
        = objects db - {image_url ph}
    \<and> guests (snd (handleDeletePhoto (Some pid) (Some gid) photos_state env db))
        = map (\<lambda>r. if g_id r = gid
                    then r\<lparr>photos_remaining := min (photos_remaining g + 1) 10\<rparr> else r)
            (guests db)
    \<and> from_guests_select False gid
         (snd (handleDeletePhoto (Some pid) (Some gid) photos_state env db))
        = Inr (g\<lparr>photos_remaining := min (photos_remaining g + 1) 10\<rparr>)"
  using assms
  by (auto simp: handleDeletePhoto_def falsy_def storage_remove_def from_photos_delete_def
      restore_credit_def from_guests_select_def from_guests_update_def Let_def filter_update_same single_def
      split: list.splits)

text \<open>
  Under the raised default, a guest with 19 credits left who deletes a photo ends with 10.
\<close>

theorem delete_removes_and_restores_witness:
  "schema demo_db = Raised_default
   \<and> from_guests_select False ''g1'' demo_db = Inr demo_guest
   \<and> photos_remaining demo_guest = 19
   \<and> isOwner (Some ''g1'') demo_photo
   \<and> fst (handleDeletePhoto (Some ''p1'') (Some ''g1'') [demo_photo]
           (delete_env_of False False False False) demo_db) = Some Photo_deleted
   \<and> photos (snd (handleDeletePhoto (Some ''p1'') (Some ''g1'') [demo_photo]
           (delete_env_of False False False False) demo_db)) = []
   \<and> objects (snd (handleDeletePhoto (Some ''p1'') (Some ''g1'') [demo_photo]
           (delete_env_of False False False False) demo_db)) = {}
   \<and> from_guests_select False ''g1'' (snd (handleDeletePhoto (Some ''p1'') (Some ''g1'') [demo_photo]
           (delete_env_of False False False False) demo_db)) = Inr (demo_guest\<lparr>photos_remaining := 10\<rparr>)"
  using delete_removes_and_restores [of "''p1''" "''g1''" "[demo_photo]" demo_photo
      "delete_env_of False False False False" demo_db demo_guest]
  by (simp add: demo_defs isOwner_def falsy_def from_guests_select_def single_def)

text \<open>
  Claim C8. When the storage delete is refused, the handler goes on: the photo row is
  deleted, the success toast is shown, and the objects of the bucket are untouched, so the
  object of the deleted photo is still there.
\<close>

theorem storage_failure_ignored:
  assumes "pid \<noteq> []" and "gid \<noteq> []"
    and "find (\<lambda>p. p_id p = pid) photos_state = Some ph"
    and "remove_fails env" and "\<not> delete_fails env"
  shows "fst (handleDeletePhoto (Some pid) (Some gid) photos_state env db) = Some Photo_deleted
    \<and> photos (snd (handleDeletePhoto (Some pid) (Some gid) photos_state env db))
        = filter (\<lambda>r. p_id r \<noteq> pid) (photos db)
    \<and> objects (snd (handleDeletePhoto (Some pid) (Some gid) photos_state env db)) = objects db"
  using assms
  by (auto simp: handleDeletePhoto_def falsy_def storage_remove_def from_photos_delete_def
      restore_credit_def from_guests_select_def from_guests_update_def Let_def
      split: sum.splits)

theorem storage_failure_ignored_witness:
  "fst (handleDeletePhoto (Some ''p1'') (Some ''g1'') [demo_photo]
           (delete_env_of True False False False) demo_db) = Some Photo_deleted
   \<and> photos (snd (handleDeletePhoto (Some ''p1'') (Some ''g1'') [demo_photo]
           (delete_env_of True False False False) demo_db)) = []
   \<and> image_url demo_photo \<in> objects (snd (handleDeletePhoto (Some ''p1'') (Some ''g1'') [demo_photo]
           (delete_env_of True False False False) demo_db))"
  using storage_failure_ignored [of "''p1''" "''g1''" "[demo_photo]" demo_photo
      "delete_env_of True False False False" demo_db]
  by (simp add: demo_defs)

text \<open>
  Claim C10. When the photo row is deleted and the read of the guest's
  \<open>photos_remaining\<close> fails (the call is refused, or the guest has no single row), the
  handler still shows the success toast \<open>Photo deleted\<close> (with the description
  \<open>Your photo credit has been restored.\<close>) and the guests table is unchanged: no credit
  is restored.
\<close>

theorem restore_skipped_when_read_fails:
  assumes "pid \<noteq> []" and "gid \<noteq> []"
    and "find (\<lambda>p. p_id p = pid) photos_state = Some ph"
    and "\<not> delete_fails env"
    and "from_guests_select (select_fails env) gid db = Inl e"
  shows "fst (handleDeletePhoto (Some pid) (Some gid) photos_state env db) = Some Photo_deleted
    \<and> photos (snd (handleDeletePhoto (Some pid) (Some gid) photos_state env db))
        = filter (\<lambda>r. p_id r \<noteq> pid) (photos db)
    \<and> guests (snd (handleDeletePhoto (Some pid) (Some gid) photos_state env db)) = guests db"
proof -
  define d1 where "d1 = (case storage_remove (remove_fails env) [image_url ph] db of
      Inl storageError \<Rightarrow> db | Inr d \<Rightarrow> d)"
  have d1: "guests d1 = guests db" "photos d1 = photos db"
    unfolding d1_def by (cases "remove_fails env"; simp add: storage_remove_def)+
  define d2 where "d2 = d1\<lparr>photos := filter (\<lambda>r. p_id r \<noteq> pid) (photos d1)\<rparr>"
  have del: "from_photos_delete (delete_fails env) pid d1 = Inr d2"
    using assms(4) by (simp add: from_photos_delete_def d2_def)
  have d2: "guests d2 = guests db" "photos d2 = filter (\<lambda>r. p_id r \<noteq> pid) (photos db)"
    by (simp_all add: d2_def d1)
  have "from_guests_select (select_fails env) gid d2
      = from_guests_select (select_fails env) gid db"
    by (simp add: from_guests_select_def d2)
  with assms(5) have "from_guests_select (select_fails env) gid d2 = Inl e"
    by simp
  then have rc: "restore_credit env gid d2 = d2" by (simp add: restore_credit_def)
  have "handleDeletePhoto (Some pid) (Some gid) photos_state env db = (Some Photo_deleted, d2)"
    using assms(1-3) del rc
    unfolding handleDeletePhoto_def falsy_def Let_def d1_def by simp
  with d2 show ?thesis by simp
qed

theorem restore_skipped_when_read_fails_witness:
  "from_guests_select True ''g1'' demo_db = Inl Unavailable
   \<and> fst (handleDeletePhoto (Some ''p1'') (Some ''g1'') [demo_photo]
           (delete_env_of False False True False) demo_db) = Some Photo_deleted
   \<and> photos (snd (handleDeletePhoto (Some ''p1'') (Some ''g1'') [demo_photo]
           (delete_env_of False False True False) demo_db)) = []
   \<and> map photos_remaining (guests (snd (handleDeletePhoto (Some ''p1'') (Some ''g1'') [demo_photo]
           (delete_env_of False False True False) demo_db))) = [19]"
  using restore_skipped_when_read_fails [of "''p1''" "''g1''" "[demo_photo]" demo_photo
      "delete_env_of False False True False" demo_db Unavailable]
  by (simp add: demo_defs from_guests_select_def)

lemma caption_erased_update:
  "map (\<lambda>p. p\<lparr>caption := None\<rparr>) (map (\<lambda>r. if p_id r = pid then r\<lparr>caption := c\<rparr> else r) xs)
     = map (\<lambda>p. p\<lparr>caption := None\<rparr>) xs"
  by (induction xs) auto

lemma other_photos_update:
  "filter (\<lambda>p. p_id p \<noteq> pid) (map (\<lambda>r. if p_id r = pid then r\<lparr>caption := c\<rparr> else r) xs)
     = filter (\<lambda>p. p_id p \<noteq> pid) xs"
  by (induction xs) auto

lemma handleSaveCaption_cases:
  assumes "handleSaveCaption (Some pid) editCaption fails db = (t, db1)"
  shows "(t \<noteq> Some Caption_updated \<and> db1 = db)
    \<or> (t = Some Caption_updated
        \<and> db1 = db\<lparr>photos := map (\<lambda>r. if p_id r = pid
              then r\<lparr>caption := (if length (trim editCaption) > 0 then Some (trim editCaption)
                                     else None)\<rparr>
              else r) (photos db)\<rparr>)"
proof (cases "pid = []")
  case True
  with assms show ?thesis by (simp add: handleSaveCaption_def)
next
  case False
  show ?thesis
  proof (cases "from_photos_update_caption fails pid
      (if length (trim editCaption) > 0 then Some (trim editCaption) else None) db")
    case (Inl e)
    with assms False have "t = Some (Failed_to_update_caption e)" "db1 = db"
      by (simp_all add: handleSaveCaption_def Let_def)
    then show ?thesis by simp
  next
    case (Inr d)
    then have "d = db\<lparr>photos := map (\<lambda>r. if p_id r = pid
              then r\<lparr>caption := (if length (trim editCaption) > 0 then Some (trim editCaption)
                                     else None)\<rparr>
              else r) (photos db)\<rparr>"
      unfolding from_photos_update_caption_def by (simp split: if_splits)
    moreover from assms False Inr have "t = Some Caption_updated" "db1 = d"
      by (simp_all add: handleSaveCaption_def Let_def)
    ultimately show ?thesis by simp
  qed
qed

lemma caption_set_update:
  assumes "p \<in> set (map (\<lambda>r. if p_id r = pid then r\<lparr>caption := c\<rparr> else r) xs)"
    and "p_id p = pid"
  shows "caption p = c"
proof -
  from assms(1) obtain r where r: "p = (if p_id r = pid then r\<lparr>caption := c\<rparr> else r)"
    by (auto simp del: set_map simp add: in_set_conv_nth)
  show ?thesis
  proof (cases "p_id r = pid")
    case True
    with r show ?thesis by simp
  next
    case False
    with r assms(2) show ?thesis by simp
  qed
qed

text \<open>
  Claim C9. Saving a caption leaves the guests, the events, the storage objects and the
  schema as they were; it keeps every field other than \<open>caption\<close> of every photo, keeps the
  other photos entirely, and on success gives the edited photo the trimmed text (or null
  when the trimmed text is empty).
\<close>

theorem caption_edit_changes_caption_only:
  assumes "handleSaveCaption (Some pid) editCaption fails db = (t, db1)"
  shows "guests db1 = guests db \<and> wedding_events db1 = wedding_events db
    \<and> objects db1 = objects db \<and> schema db1 = schema db
    \<and> map (\<lambda>p. p\<lparr>caption := None\<rparr>) (photos db1) = map (\<lambda>p. p\<lparr>caption := None\<rparr>) (photos db)
    \<and> filter (\<lambda>p. p_id p \<noteq> pid) (photos db1) = filter (\<lambda>p. p_id p \<noteq> pid) (photos db)
    \<and> (t = Some Caption_updated \<longrightarrow>
         (\<forall>p \<in> set (photos db1). p_id p = pid \<longrightarrow>
            caption p = (if length (trim editCaption) > 0 then Some (trim editCaption) else None)))"
proof -
  define c where "c = (if length (trim editCaption) > 0 then Some (trim editCaption) else None)"
  from handleSaveCaption_cases [OF assms]
  consider "t \<noteq> Some Caption_updated" "db1 = db"
    | "t = Some Caption_updated"
      "db1 = db\<lparr>photos := map (\<lambda>r. if p_id r = pid then r\<lparr>caption := c\<rparr> else r) (photos db)\<rparr>"
    unfolding c_def by blast
  then show ?thesis
  proof cases
    case 1
    then show ?thesis by simp
  next
    case 2
    have ph: "photos db1 = map (\<lambda>r. if p_id r = pid then r\<lparr>caption := c\<rparr> else r) (photos db)"
      unfolding 2 by simp
    have a: "\<forall>p \<in> set (photos db1). p_id p = pid \<longrightarrow> caption p = c"
      unfolding ph using caption_set_update by blast
    have b: "map (\<lambda>p. p\<lparr>caption := None\<rparr>) (photos db1) = map (\<lambda>p. p\<lparr>caption := None\<rparr>) (photos db)"
      unfolding ph by (rule caption_erased_update)
    have d: "filter (\<lambda>p. p_id p \<noteq> pid) (photos db1) = filter (\<lambda>p. p_id p \<noteq> pid) (photos db)"
      unfolding ph by (rule other_photos_update)
    have e: "guests db1 = guests db \<and> wedding_events db1 = wedding_events db
        \<and> objects db1 = objects db \<and> schema db1 = schema db"
      unfolding 2 by simp
    from a b d e show ?thesis unfolding c_def by blast
  qed
qed

theorem caption_edit_changes_caption_only_witness:
  "handleSaveCaption (Some ''p1'') '' cheers '' False demo_db
     = (Some Caption_updated, demo_db\<lparr>photos := [demo_photo\<lparr>caption := Some ''cheers''\<rparr>]\<rparr>)
   \<and> guests (demo_db\<lparr>photos := [demo_photo\<lparr>caption := Some ''cheers''\<rparr>]\<rparr>) = guests demo_db"
  using caption_edit_changes_caption_only [of "''p1''" "'' cheers ''" False demo_db
      "Some Caption_updated" "demo_db\<lparr>photos := [demo_photo\<lparr>caption := Some ''cheers''\<rparr>]\<rparr>"]
  by (simp add: demo_defs handleSaveCaption_def from_photos_update_caption_def Let_def
        trim_def isWhiteSpace_def photos_caption_length_def)

lemma storage_upload_Inr:
  "storage_upload fails name db = Inr d \<Longrightarrow>
     \<not> fails \<and> name \<notin> objects db \<and> d = db\<lparr>objects := insert name (objects db)\<rparr>"
  by (simp add: storage_upload_def split: if_splits)

lemma from_photos_insert_Inr:
  "from_photos_insert fails row db = Inr d \<Longrightarrow>
     \<not> fails \<and> p_id row \<notin> set (map p_id (photos db)) \<and> photos_caption_length (caption row)
     \<and> d = db\<lparr>photos := photos db @ [row]\<rparr>"
  by (simp add: from_photos_insert_def split: if_splits)

lemma from_photos_insert_Inl:
  "from_photos_insert fails row db = Inl e \<Longrightarrow> e = Check_violation \<Longrightarrow>
     \<not> photos_caption_length (caption row)"
  by (simp add: from_photos_insert_def split: if_splits)

lemma from_guests_update_Inr:
  "from_guests_update fails gid upd db = Inr d \<Longrightarrow>
     \<not> fails \<and> d = db\<lparr>guests := map (\<lambda>r. if g_id r = gid then upd r else r) (guests db)\<rparr>"
  by (simp add: from_guests_update_def split: if_splits)

lemma from_guests_update_Inl:
  "from_guests_update fails gid upd db = Inl e \<Longrightarrow> fails \<and> e = Unavailable"
  by (simp add: from_guests_update_def split: if_splits)

lemma length_trim: "length (trim s) \<le> length s"
proof -
  have "length (trim s) = length (dropWhile isWhiteSpace (rev (dropWhile isWhiteSpace s)))"
    by (simp add: trim_def)
  also have "\<dots> \<le> length (rev (dropWhile isWhiteSpace s))"
    by (rule length_dropWhile_le)
  also have "\<dots> = length (dropWhile isWhiteSpace s)"
    by simp
  also have "\<dots> \<le> length s"
    by (rule length_dropWhile_le)
  finally show ?thesis .
qed

lemma length_onChange: "length s \<le> 150 \<Longrightarrow> length (foldl onChange s typed) \<le> 150"
  by (induction typed arbitrary: s) (simp_all add: onChange_def MAX_CAPTION_LENGTH_def)

lemma submitted_caption_ok:
  "length s \<le> 150 \<Longrightarrow>
     photos_caption_length (if length (trim s) > 0 then Some (trim s) else None)"
  using length_trim [of s] by (simp add: photos_caption_length_def Suc_le_eq)

lemma handleUpload_cases:
  assumes "handleUpload props (Some f) cap env db = (t, db1)"
  shows "((\<exists>e. t = Some (Upload_failed e) \<and> (e = Check_violation \<longrightarrow> length cap > 150))
          \<and> guests db1 = guests db
          \<and> (photos db1 = photos db
              \<or> (update_fails env \<and> \<not> upload_fails env \<and> \<not> insert_fails env
                  \<and> (\<exists>row. photos db1 = photos db @ [row] \<and> p_id row = new_photo_id env
                        \<and> p_id row \<notin> set (map p_id (photos db))
                        \<and> guest_id row = guestId props \<and> p_wedding_event_id row = eventId props
                        \<and> photos_caption_length (caption row)))))
    \<or> (t = Some (Moment_captured (photosRemaining props - 1))
        \<and> \<not> upload_fails env \<and> \<not> insert_fails env \<and> \<not> update_fails env
        \<and> (\<exists>row. photos db1 = photos db @ [row] \<and> p_id row = new_photo_id env
              \<and> p_id row \<notin> set (map p_id (photos db))
              \<and> guest_id row = guestId props \<and> p_wedding_event_id row = eventId props
              \<and> photos_caption_length (caption row))
        \<and> guests db1
            = map (\<lambda>r. if g_id r = guestId props
                        then r\<lparr>photos_remaining := photosRemaining props - 1,
                               has_unlocked_feed := True\<rparr>
                        else r) (guests db))"
proof -
  define fileName where "fileName = eventId props @ ''/'' @ guestId props @ ''/''
      @ decimal (date_now env) @ ''-'' @ map sanitize_char (f_name f)"
  define row where "row = \<lparr>p_id = new_photo_id env, p_wedding_event_id = eventId props,
      guest_id = guestId props, image_url = fileName, p_guest_name = guestName props,
      captured_at = db_now env,
      caption = (if length (trim cap) > 0 then Some (trim cap) else None)\<rparr>"
  define upd where "upd = (\<lambda>r::guest. r\<lparr>photos_remaining := photosRemaining props - 1,
      has_unlocked_feed := True\<rparr>)"
  have unfold: "handleUpload props (Some f) cap env db =
      (case storage_upload (upload_fails env) fileName db of
         Inl uploadError \<Rightarrow> (Some (Upload_failed uploadError), db)
       | Inr d1 \<Rightarrow>
           (case from_photos_insert (insert_fails env) row d1 of
              Inl photoError \<Rightarrow> (Some (Upload_failed photoError), d1)
            | Inr d2 \<Rightarrow>
                (case from_guests_update (update_fails env) (guestId props) upd d2 of
                   Inl updateError \<Rightarrow> (Some (Upload_failed updateError), d2)
                 | Inr d3 \<Rightarrow> (Some (Moment_captured (photosRemaining props - 1)), d3))))"
    unfolding handleUpload_def Let_def fileName_def row_def upd_def by simp
  show ?thesis
  proof (cases "storage_upload (upload_fails env) fileName db")
    case (Inl e)
    then have "e \<noteq> Check_violation" by (simp add: storage_upload_def split: if_splits)
    moreover from assms Inl have "t = Some (Upload_failed e)" "db1 = db"
      unfolding unfold by simp_all
    ultimately show ?thesis by blast
  next
    case up: (Inr d1)
    from storage_upload_Inr [OF up]
    have d1: "\<not> upload_fails env" "guests d1 = guests db" "photos d1 = photos db" by simp_all
    show ?thesis
    proof (cases "from_photos_insert (insert_fails env) row d1")
      case (Inl e)
      have "e = Check_violation \<longrightarrow> length cap > 150"
      proof
        assume "e = Check_violation"
        with from_photos_insert_Inl [OF Inl] have "\<not> photos_caption_length (caption row)" by simp
        then show "length cap > 150"
          using submitted_caption_ok [of cap] by (cases "length cap \<le> 150") (simp_all add: row_def)
      qed
      moreover from assms up Inl have "t = Some (Upload_failed e)" "db1 = d1"
        unfolding unfold by simp_all
      ultimately show ?thesis using d1 by blast
    next
      case ins: (Inr d2)
      from from_photos_insert_Inr [OF ins] d1
      have d2: "\<not> insert_fails env" "guests d2 = guests db" "photos d2 = photos db @ [row]"
        "p_id row \<notin> set (map p_id (photos db))" "photos_caption_length (caption row)"
        by simp_all
      have rowf: "p_id row = new_photo_id env" "guest_id row = guestId props"
        "p_wedding_event_id row = eventId props"
        by (simp_all add: row_def)
      show ?thesis
      proof (cases "from_guests_update (update_fails env) (guestId props) upd d2")
        case (Inl e)
        from from_guests_update_Inl [OF Inl] have "update_fails env" "e \<noteq> Check_violation" by simp_all
        moreover from assms up ins Inl have "t = Some (Upload_failed e)" "db1 = d2"
          unfolding unfold by simp_all
        ultimately show ?thesis using d1 d2 rowf by blast
      next
        case (Inr d3)
        from from_guests_update_Inr [OF Inr] d2
        have d3: "\<not> update_fails env" "photos d3 = photos db @ [row]"
          "guests d3 = map (\<lambda>r. if g_id r = guestId props then upd r else r) (guests db)"
          by simp_all
        moreover from assms up ins Inr
        have "t = Some (Moment_captured (photosRemaining props - 1))" "db1 = d3"
          unfolding unfold by simp_all
        ultimately show ?thesis using d1 d2 rowf unfolding upd_def by blast
      qed
    qed
  qed
qed

lemma handleUpload_unfold:
  "handleUpload props (Some f) caption_state env db =
     (case storage_upload (upload_fails env) (uploaded_name props f env) db of
        Inl uploadError \<Rightarrow> (Some (Upload_failed uploadError), db)
      | Inr d1 \<Rightarrow>
          (case from_photos_insert (insert_fails env) (inserted_row props f caption_state env) d1 of
             Inl photoError \<Rightarrow> (Some (Upload_failed photoError), d1)
           | Inr d2 \<Rightarrow>
               (case from_guests_update (update_fails env) (guestId props)
                       (\<lambda>r. r\<lparr>photos_remaining := photosRemaining props - 1,
                              has_unlocked_feed := True\<rparr>) d2 of
                  Inl updateError \<Rightarrow> (Some (Upload_failed updateError), d2)
                | Inr d3 \<Rightarrow> (Some (Moment_captured (photosRemaining props - 1)), d3))))"
  unfolding handleUpload_def Let_def uploaded_name_def inserted_row_def by simp

text \<open>With no call refused, a new object name and a new photo id, the upload succeeds.\<close>

lemma handleUpload_succeeds:
  assumes "\<not> upload_fails env" and "\<not> insert_fails env" and "\<not> update_fails env"
    and "uploaded_name props f env \<notin> objects db"
    and "new_photo_id env \<notin> set (map p_id (photos db))"
    and "length caption_state \<le> MAX_CAPTION_LENGTH"
  shows "handleUpload props (Some f) caption_state env db
    = (Some (Moment_captured (photosRemaining props - 1)),
       db\<lparr>objects := insert (uploaded_name props f env) (objects db),
          photos := photos db @ [inserted_row props f caption_state env],
          guests := map (\<lambda>r. if g_id r = guestId props
                              then r\<lparr>photos_remaining := photosRemaining props - 1,
                                     has_unlocked_feed := True\<rparr>
                              else r) (guests db)\<rparr>)"
proof -
  have ok: "photos_caption_length (caption (inserted_row props f caption_state env))"
    using submitted_caption_ok [of caption_state] assms(6)
    by (simp add: inserted_row_def MAX_CAPTION_LENGTH_def)
  have id: "p_id (inserted_row props f caption_state env) = new_photo_id env"
    by (simp add: inserted_row_def)
  show ?thesis
    unfolding handleUpload_unfold
    using assms(1-5) ok id
    by (simp add: storage_upload_def from_photos_insert_def from_guests_update_def)
qed

lemma handleUpload_photos:
  "photos (snd (handleUpload props sel caption_state env db)) = photos db
   \<or> (\<exists>f. sel = Some f
        \<and> photos (snd (handleUpload props sel caption_state env db))
            = photos db @ [inserted_row props f caption_state env])"
proof (cases sel)
  case None
  then show ?thesis by (simp add: handleUpload_def)
next
  case (Some f)
  show ?thesis
  proof (cases "storage_upload (upload_fails env) (uploaded_name props f env) db")
    case (Inl e)
    then show ?thesis unfolding Some handleUpload_unfold by simp
  next
    case up: (Inr d1)
    from storage_upload_Inr [OF up] have d1: "photos d1 = photos db" by simp
    show ?thesis
    proof (cases "from_photos_insert (insert_fails env) (inserted_row props f caption_state env) d1")
      case (Inl e)
      with up d1 show ?thesis unfolding Some handleUpload_unfold by simp
    next
      case ins: (Inr d2)
      from from_photos_insert_Inr [OF ins] d1
      have d2: "photos d2 = photos db @ [inserted_row props f caption_state env]" by simp
      show ?thesis
      proof (cases "from_guests_update (update_fails env) (guestId props)
          (\<lambda>r. r\<lparr>photos_remaining := photosRemaining props - 1, has_unlocked_feed := True\<rparr>) d2")
        case (Inl e)
        with up ins d2 show ?thesis unfolding Some handleUpload_unfold by simp
      next
        case (Inr d3)
        from from_guests_update_Inr [OF Inr] d2
        have "photos d3 = photos db @ [inserted_row props f caption_state env]" by simp
        with up ins Inr show ?thesis unfolding Some handleUpload_unfold by simp
      qed
    qed
  qed
qed

lemma handleUpload_no_check_violation:
  assumes "length caption_state \<le> MAX_CAPTION_LENGTH"
  shows "fst (handleUpload props sel caption_state env db) \<noteq> Some (Upload_failed Check_violation)"
proof (cases sel)
  case None
  then show ?thesis by (simp add: handleUpload_def)
next
  case (Some f)
  obtain t db1 where r: "handleUpload props (Some f) caption_state env db = (t, db1)"
    by (cases "handleUpload props (Some f) caption_state env db")
  from handleUpload_cases [OF r] assms have "t \<noteq> Some (Upload_failed Check_violation)"
    by (auto simp: MAX_CAPTION_LENGTH_def)
  with r Some show ?thesis by simp
qed

text \<open>
  A refused storage upload or photo insert aborts the upload: the toast is \<open>Upload failed\<close>
  and the guests table is as before, and so is the photos table.
\<close>

lemma handleUpload_aborts:
  assumes "upload_fails env \<or> insert_fails env"
  shows "(\<exists>e. fst (handleUpload props (Some f) caption_state env db) = Some (Upload_failed e))
    \<and> guests (snd (handleUpload props (Some f) caption_state env db)) = guests db
    \<and> photos (snd (handleUpload props (Some f) caption_state env db)) = photos db"
proof -
  obtain t db1 where r: "handleUpload props (Some f) caption_state env db = (t, db1)"
    by (cases "handleUpload props (Some f) caption_state env db")
  from handleUpload_cases [OF r] assms
  have "(\<exists>e. t = Some (Upload_failed e)) \<and> guests db1 = guests db \<and> photos db1 = photos db"
    by blast
  with r show ?thesis by simp
qed

text \<open>
  Claim C3 fails on a page that is not up to date. \<open>handleUpload\<close> does not decrement the
  row: it writes \<open>photosRemaining - 1\<close>, where \<open>photosRemaining\<close> is the value the page read
  when it was loaded. A guest at \<open>photos_remaining = 10\<close> with the page open twice uploads a
  photo from each page: both pages offer the upload, both report \<open>Moment captured!\<close> with
  9 photos remaining, two photo rows are inserted, and the row is at 9, not at 8.
\<close>

theorem upload_from_stale_page_keeps_credit:
  "from_guests_select False ''g1'' demo_db_joined = Inr demo_guest0
   \<and> photos_remaining demo_guest0 = 10
   \<and> capture_offered demo_guest0
   \<and> page_step (demo_page_upload demo_guest0 demo_upload_env) demo_db_joined
       = (Some (Moment_captured 9), page_run [demo_page_upload demo_guest0 demo_upload_env]
            demo_db_joined)
   \<and> map photos_remaining
        (guests (page_run [demo_page_upload demo_guest0 demo_upload_env] demo_db_joined)) = [9]
   \<and> page_step (demo_page_upload demo_guest0 demo_upload_env2)
        (page_run [demo_page_upload demo_guest0 demo_upload_env] demo_db_joined)
       = (Some (Moment_captured 9), page_run demo_two_pages demo_db_joined)
   \<and> page_uploads_done ''g1'' demo_two_pages demo_db_joined = 2
   \<and> map p_id (own_photos ''g1'' (page_run demo_two_pages demo_db_joined)) = [''p2'', ''p3'']
   \<and> map photos_remaining (guests (page_run demo_two_pages demo_db_joined)) = [9]"
  by code_simp

lemma fetchData_Some:
  "fetchData s db = Some (g, ev) \<Longrightarrow> from_guests_select False (gs_guestId s) db = Inr g"
  by (simp add: fetchData_def split: sum.splits)

lemma from_guests_select_Inr:
  "from_guests_select fails gid db = Inr g \<Longrightarrow>
     \<not> fails \<and> filter (\<lambda>r. g_id r = gid) (guests db) = [g]"
  by (simp add: from_guests_select_def single_def split: if_splits list.splits)

lemma from_photos_update_caption_Inr:
  "from_photos_update_caption fails pid c db = Inr d \<Longrightarrow>
     \<not> fails \<and> (pid \<in> set (map p_id (photos db)) \<longrightarrow> photos_caption_length c)
     \<and> d = db\<lparr>photos := map (\<lambda>r. if p_id r = pid then r\<lparr>caption := c\<rparr> else r) (photos db)\<rparr>"
  by (simp add: from_photos_update_caption_def split: if_splits)

lemma from_photos_delete_Inr:
  "from_photos_delete fails pid db = Inr d \<Longrightarrow>
     \<not> fails \<and> d = db\<lparr>photos := filter (\<lambda>r. p_id r \<noteq> pid) (photos db)\<rparr>"
  by (simp add: from_photos_delete_def split: if_splits)

lemma from_guests_insert_Inr:
  "from_guests_insert fails row db = Inr d \<Longrightarrow>
     \<not> fails \<and> g_id row \<notin> set (map g_id (guests db)) \<and> d = db\<lparr>guests := guests db @ [row]\<rparr>"
  by (simp add: from_guests_insert_def split: if_splits)

lemma set_fetchPhotos: "set (fetchPhotos e db) \<subseteq> set (photos db)"
  by (auto simp: fetchPhotos_def)

lemma find_Some_set: "find P xs = Some x \<Longrightarrow> x \<in> set xs \<and> P x"
  by (induction xs) (auto split: if_splits)

lemma own_photo_in_feed_Some:
  assumes "own_photo_in_feed s pid db = Some p"
  shows "p \<in> set (photos db) \<and> p_id p = pid \<and> guest_id p = gs_guestId s
    \<and> find (\<lambda>p. p_id p = pid) (fetchPhotos (gs_weddingEventId s) db) = Some p
    \<and> gs_guestId s \<noteq> []
    \<and> (\<exists>g ev. fetchData s db = Some (g, ev) \<and> has_unlocked_feed g)"
proof -
  from assms obtain g ev where fd: "fetchData s db = Some (g, ev)"
    by (cases "fetchData s db") (auto simp: own_photo_in_feed_def)
  with assms have ul: "has_unlocked_feed g"
    by (cases "has_unlocked_feed g") (simp_all add: own_photo_in_feed_def)
  from assms fd ul obtain q where
    q: "find (\<lambda>p. p_id p = pid) (fetchPhotos (gs_weddingEventId s) db) = Some q"
    by (cases "find (\<lambda>p. p_id p = pid) (fetchPhotos (gs_weddingEventId s) db)")
       (simp_all add: own_photo_in_feed_def)
  with assms fd ul have ow: "isOwner (Some (gs_guestId s)) q" and pq: "p = q"
    by (cases "isOwner (Some (gs_guestId s)) q"; simp add: own_photo_in_feed_def)+
  from find_Some_set [OF q] set_fetchPhotos have "q \<in> set (photos db)" "p_id q = pid"
    by blast+
  moreover from ow have "guest_id q = gs_guestId s" "gs_guestId s \<noteq> []"
    by (simp_all add: isOwner_def falsy_def)
  ultimately show ?thesis using fd ul q pq by blast
qed

section \<open>What one action does to the tables\<close>

lemma capture_cases:
  assumes "capture s sel typed env db = (t, db1)"
  shows "((\<forall>n. t \<noteq> Some (Moment_captured n)) \<and> guests db1 = guests db
          \<and> (photos db1 = photos db
              \<or> (update_fails env
                  \<and> (\<exists>row. photos db1 = photos db @ [row]
                        \<and> p_id row \<notin> set (map p_id (photos db))
                        \<and> guest_id row = gs_guestId s
                        \<and> photos_caption_length (caption row)))))
    \<or> (\<exists>g ev row. fetchData s db = Some (g, ev) \<and> capture_offered g \<and> \<not> update_fails env
          \<and> t = Some (Moment_captured (photos_remaining g - 1))
          \<and> photos db1 = photos db @ [row]
          \<and> p_id row \<notin> set (map p_id (photos db))
          \<and> guest_id row = gs_guestId s
          \<and> photos_caption_length (caption row)
          \<and> guests db1
              = map (\<lambda>r. if g_id r = gs_guestId s
                          then r\<lparr>photos_remaining := photos_remaining g - 1,
                                 has_unlocked_feed := True\<rparr>
                          else r) (guests db))"
proof (cases "fetchData s db")
  case None
  with assms have "t = Some Session_expired" "db1 = db" by (simp_all add: capture_def)
  then show ?thesis by simp
next
  case (Some ge)
  obtain g ev where ge: "ge = (g, ev)" by (cases ge)
  note fd = Some [unfolded ge]
  show ?thesis
  proof (cases "capture_offered g")
    case False
    with assms fd have "t = None" "db1 = db" by (simp_all add: capture_def)
    then show ?thesis by simp
  next
    case True
    define props where "props = \<lparr>guestId = gs_guestId s, eventId = gs_weddingEventId s,
      photosRemaining = photos_remaining g, guestName = g_guest_name g\<rparr>"
    have pf: "guestId props = gs_guestId s" "photosRemaining props = photos_remaining g"
      by (simp_all add: props_def)
    from assms fd True
    have hu: "handleUpload props sel (foldl onChange [] typed) env db = (t, db1)"
      by (simp add: capture_def props_def)
    show ?thesis
    proof (cases sel)
      case None
      with hu have "t = None" "db1 = db" by (simp_all add: handleUpload_def)
      then show ?thesis by simp
    next
      case (Some f)
      from handleUpload_cases [OF hu [unfolded Some]]
      consider (failed) e where "t = Some (Upload_failed e)" "guests db1 = guests db"
          "photos db1 = photos db
              \<or> (update_fails env
                  \<and> (\<exists>row. photos db1 = photos db @ [row]
                        \<and> p_id row \<notin> set (map p_id (photos db))
                        \<and> guest_id row = gs_guestId s
                        \<and> photos_caption_length (caption row)))"
        | (captured) row where "t = Some (Moment_captured (photos_remaining g - 1))"
          "\<not> update_fails env"
          "photos db1 = photos db @ [row]" "p_id row \<notin> set (map p_id (photos db))"
          "guest_id row = gs_guestId s" "photos_caption_length (caption row)"
          "guests db1 = map (\<lambda>r. if g_id r = gs_guestId s
              then r\<lparr>photos_remaining := photos_remaining g - 1, has_unlocked_feed := True\<rparr>
              else r) (guests db)"
        unfolding pf by blast
      then show ?thesis
      proof cases
        case failed
        then show ?thesis by simp
      next
        case captured
        with fd True show ?thesis by blast
      qed
    qed
  qed
qed

lemma restore_credit_photos: "photos (restore_credit env gid db) = photos db"
proof (cases "from_guests_select (select_fails env) gid db")
  case (Inl e)
  then show ?thesis by (simp add: restore_credit_def)
next
  case (Inr g)
  show ?thesis
  proof (cases "from_guests_update (restore_fails env) gid
      (\<lambda>r. r\<lparr>photos_remaining := min (photos_remaining g + 1) 10\<rparr>) db")
    case (Inl e)
    with Inr show ?thesis by (simp add: restore_credit_def Let_def)
  next
    case upd: (Inr d)
    from from_guests_update_Inr [OF upd] have "photos d = photos db" by simp
    with Inr upd show ?thesis by (simp add: restore_credit_def Let_def)
  qed
qed

lemma restore_credit_skipped:
  "select_fails env \<or> restore_fails env \<Longrightarrow> restore_credit env gid db = db"
  by (cases "select_fails env")
     (auto simp: restore_credit_def from_guests_select_def from_guests_update_def Let_def
           split: sum.splits)

lemma restore_credit_done:
  assumes "\<not> select_fails env" "\<not> restore_fails env"
    and "filter (\<lambda>r. g_id r = gid) (guests db) = [g]"
  shows "guests (restore_credit env gid db)
    = map (\<lambda>r. if g_id r = gid
                then r\<lparr>photos_remaining := min (photos_remaining g + 1) 10\<rparr> else r) (guests db)"
  using assms
  by (simp add: restore_credit_def from_guests_select_def from_guests_update_def Let_def
        single_def)

lemma delete_photo_cases:
  assumes "delete_photo s pid env db = (t, db1)"
  shows "(t \<noteq> Some Photo_deleted \<and> guests db1 = guests db \<and> photos db1 = photos db)
    \<or> (t = Some Photo_deleted
        \<and> (\<exists>p g. p \<in> set (photos db) \<and> p_id p = pid \<and> guest_id p = gs_guestId s
              \<and> filter (\<lambda>r. g_id r = gs_guestId s) (guests db) = [g]
              \<and> photos db1 = filter (\<lambda>r. p_id r \<noteq> pid) (photos db)
              \<and> guests db1
                  = (if select_fails env \<or> restore_fails env then guests db
                     else map (\<lambda>r. if g_id r = gs_guestId s
                                    then r\<lparr>photos_remaining := min (photos_remaining g + 1) 10\<rparr>
                                    else r) (guests db))))"
proof (cases "own_photo_in_feed s pid db")
  case None
  with assms have "t = None" "db1 = db" by (simp_all add: delete_photo_def)
  then show ?thesis by simp
next
  case (Some p)
  from own_photo_in_feed_Some [OF Some] obtain g ev where
    p: "p \<in> set (photos db)" "p_id p = pid" "guest_id p = gs_guestId s"
      "find (\<lambda>p. p_id p = pid) (fetchPhotos (gs_weddingEventId s) db) = Some p"
      "gs_guestId s \<noteq> []"
    and fd: "fetchData s db = Some (g, ev)"
    by blast
  from from_guests_select_Inr [OF fetchData_Some [OF fd]]
  have sel: "filter (\<lambda>r. g_id r = gs_guestId s) (guests db) = [g]" by simp
  from assms Some p(2)
  have hd: "handleDeletePhoto (Some pid) (Some (gs_guestId s))
      (fetchPhotos (gs_weddingEventId s) db) env db = (t, db1)"
    by (simp add: delete_photo_def)
  show ?thesis
  proof (cases "pid = []")
    case True
    with hd have "t = None" "db1 = db" by (simp_all add: handleDeletePhoto_def falsy_def)
    then show ?thesis by simp
  next
    case False
    define d1 where "d1 = (case storage_remove (remove_fails env) [image_url p] db of
        Inl storageError \<Rightarrow> db | Inr d \<Rightarrow> d)"
    have d1: "guests d1 = guests db" "photos d1 = photos db"
      unfolding d1_def by (cases "remove_fails env"; simp add: storage_remove_def)+
    from hd False p(4,5)
    have unfold: "(case from_photos_delete (delete_fails env) pid d1 of
        Inl dbError \<Rightarrow> (Some (Failed_to_delete_photo dbError), d1)
      | Inr db2 \<Rightarrow> (Some Photo_deleted, restore_credit env (gs_guestId s) db2)) = (t, db1)"
      unfolding handleDeletePhoto_def falsy_def Let_def d1_def by simp
    show ?thesis
    proof (cases "from_photos_delete (delete_fails env) pid d1")
      case (Inl e)
      with unfold have "t = Some (Failed_to_delete_photo e)" "db1 = d1" by simp_all
      with d1 show ?thesis by simp
    next
      case (Inr d2)
      from from_photos_delete_Inr [OF Inr] d1
      have d2: "photos d2 = filter (\<lambda>r. p_id r \<noteq> pid) (photos db)" "guests d2 = guests db"
        by simp_all
      from unfold Inr have t: "t = Some Photo_deleted"
        and db1: "db1 = restore_credit env (gs_guestId s) d2" by simp_all
      have ph: "photos db1 = filter (\<lambda>r. p_id r \<noteq> pid) (photos db)"
        unfolding db1 restore_credit_photos d2 ..
      have gu: "guests db1
          = (if select_fails env \<or> restore_fails env then guests db
             else map (\<lambda>r. if g_id r = gs_guestId s
                            then r\<lparr>photos_remaining := min (photos_remaining g + 1) 10\<rparr>
                            else r) (guests db))"
      proof (cases "select_fails env \<or> restore_fails env")
        case True
        then show ?thesis unfolding db1 by (simp add: restore_credit_skipped d2)
      next
        case False
        then have "\<not> select_fails env" "\<not> restore_fails env" by simp_all
        from restore_credit_done [OF this, of "gs_guestId s" d2 g] sel False
        show ?thesis unfolding db1 d2 by simp
      qed
      from t p(1-3) sel ph gu show ?thesis by blast
    qed
  qed
qed

lemma save_caption_cases:
  assumes "save_caption s pid typed fails db = (t, db1)"
  shows "guests db1 = guests db
    \<and> (photos db1 = photos db
        \<or> (\<exists>c. photos_caption_length c
              \<and> photos db1 = map (\<lambda>r. if p_id r = pid then r\<lparr>caption := c\<rparr> else r) (photos db)))"
proof (cases "own_photo_in_feed s pid db")
  case None
  with assms have "db1 = db" by (simp add: save_caption_def)
  then show ?thesis by simp
next
  case (Some p)
  from own_photo_in_feed_Some [OF Some]
  have p: "p \<in> set (photos db)" "p_id p = pid" by blast+
  define ec where "ec = foldl onChange (case caption p of None \<Rightarrow> [] | Some c \<Rightarrow> c) typed"
  from assms Some p(2) have hs: "handleSaveCaption (Some pid) ec fails db = (t, db1)"
    by (simp add: save_caption_def handleEditCaption_def ec_def)
  define c where "c = (if length (trim ec) > 0 then Some (trim ec) else None)"
  from handleSaveCaption_cases [OF hs]
  consider "db1 = db"
    | "t = Some Caption_updated"
      "db1 = db\<lparr>photos := map (\<lambda>r. if p_id r = pid then r\<lparr>caption := c\<rparr> else r) (photos db)\<rparr>"
    unfolding c_def by blast
  then show ?thesis
  proof cases
    case 1
    then show ?thesis by simp
  next
    case 2
    have "pid \<in> set (map p_id (photos db))" using p by force
    moreover have ne: "pid \<noteq> []"
      using hs 2(1) by (cases "pid = []") (simp_all add: handleSaveCaption_def)
    moreover have "from_photos_update_caption fails pid c db = Inr db1"
    proof (cases "from_photos_update_caption fails pid c db")
      case (Inl e)
      with hs 2(1) ne show ?thesis
        by (simp add: handleSaveCaption_def Let_def c_def)
    next
      case (Inr d)
      with hs ne show ?thesis
        by (simp add: handleSaveCaption_def Let_def c_def)
    qed
    ultimately have "photos_caption_length c"
      using from_photos_update_caption_Inr by blast
    with 2 show ?thesis by auto
  qed
qed

lemma handleJoin_cases:
  assumes "handleJoin eventCode guestName_state env db = (t, gs, db1)"
  shows "photos db1 = photos db
    \<and> (guests db1 = guests db
        \<or> (\<exists>row. guests db1 = guests db @ [row]
              \<and> g_id row \<notin> set (map g_id (guests db))
              \<and> photos_remaining row = DEFAULT_photos_remaining (schema db)
              \<and> \<not> has_unlocked_feed row))"
proof (cases "from_wedding_events_select_by_code (lookup_fails env)
    (trim (toUpperCase eventCode)) db")
  case (Inl e)
  with assms have "db1 = db" by (simp add: handleJoin_def)
  then show ?thesis by simp
next
  case (Inr eo)
  show ?thesis
  proof (cases eo)
    case None
    with assms Inr have "db1 = db" by (simp add: handleJoin_def)
    then show ?thesis by simp
  next
    case (Some event)
    define row where "row = \<lparr>g_id = new_guest_id env, g_wedding_event_id = e_id event,
      g_guest_name = or_null (trim guestName_state), session_token = randomUUID env,
      photos_remaining = DEFAULT_photos_remaining (schema db), has_unlocked_feed = False\<rparr>"
    have rf: "photos_remaining row = DEFAULT_photos_remaining (schema db)"
      "\<not> has_unlocked_feed row"
      by (simp_all add: row_def)
    show ?thesis
    proof (cases "from_guests_insert (join_fails env) row db")
      case (Inl e)
      with assms Inr Some have "db1 = db" by (simp add: handleJoin_def Let_def row_def)
      then show ?thesis by simp
    next
      case ins: (Inr d)
      with assms Inr Some have "db1 = d" by (simp add: handleJoin_def Let_def row_def)
      with from_guests_insert_Inr [OF ins] rf show ?thesis by auto
    qed
  qed
qed

section \<open>Runs\<close>

lemma filter_single_mem:
  assumes "filter P xs = [x]"
  shows "x \<in> set xs \<and> P x"
proof -
  from assms have "x \<in> set (filter P xs)" by simp
  then show ?thesis by simp
qed

lemma list_all_map_update:
  assumes "list_all P xs" and "\<And>x. P x \<Longrightarrow> P (f x)"
  shows "list_all P (map (\<lambda>r. if Q r then f r else r) xs)"
  using assms by (induction xs) simp_all

lemma quota_nonneg_update:
  assumes "quota_nonneg db" and "0 \<le> n"
    and "guests db1 = map (\<lambda>r. if g_id r = gid then r\<lparr>photos_remaining := n\<rparr> else r) (guests db)"
  shows "quota_nonneg db1"
  unfolding quota_nonneg_def assms(3)
  by (rule list_all_map_update) (use assms in \<open>simp_all add: quota_nonneg_def\<close>)

lemma quota_nonneg_update2:
  assumes "quota_nonneg db" and "0 \<le> n"
    and "guests db1 = map (\<lambda>r. if g_id r = gid
        then r\<lparr>photos_remaining := n, has_unlocked_feed := True\<rparr> else r) (guests db)"
  shows "quota_nonneg db1"
  unfolding quota_nonneg_def assms(3)
  by (rule list_all_map_update) (use assms in \<open>simp_all add: quota_nonneg_def\<close>)

lemma quota_nonneg_same: "quota_nonneg db \<Longrightarrow> guests db1 = guests db \<Longrightarrow> quota_nonneg db1"
  by (simp add: quota_nonneg_def)

lemma quota_nonneg_step:
  assumes inv: "quota_nonneg db"
  shows "quota_nonneg (snd (step a db))"
proof (cases a)
  case (Join eventCode guestName_state env)
  obtain t gs db1 where hj: "handleJoin eventCode guestName_state env db = (t, gs, db1)"
    by (cases "handleJoin eventCode guestName_state env db")
  then have s: "snd (step a db) = db1" by (simp add: Join)
  have def: "0 \<le> DEFAULT_photos_remaining (schema db)"
    by (cases "schema db") (simp_all add: DEFAULT_photos_remaining_def)
  from handleJoin_cases [OF hj]
  consider "guests db1 = guests db"
    | row where "guests db1 = guests db @ [row]"
        "photos_remaining row = DEFAULT_photos_remaining (schema db)"
    by blast
  then show ?thesis
  proof cases
    case 1
    with inv show ?thesis unfolding s by (rule quota_nonneg_same)
  next
    case 2
    with inv def show ?thesis unfolding s by (simp add: quota_nonneg_def)
  qed
next
  case (Capture s sel typed env)
  obtain t db1 where hc: "capture s sel typed env db = (t, db1)"
    by (cases "capture s sel typed env db")
  then have st: "snd (step a db) = db1" by (simp add: Capture)
  from capture_cases [OF hc]
  consider "guests db1 = guests db"
    | g ev where "fetchData s db = Some (g, ev)" "capture_offered g"
        "guests db1 = map (\<lambda>r. if g_id r = gs_guestId s
            then r\<lparr>photos_remaining := photos_remaining g - 1, has_unlocked_feed := True\<rparr>
            else r) (guests db)"
    by blast
  then show ?thesis
  proof cases
    case 1
    with inv show ?thesis unfolding st by (rule quota_nonneg_same)
  next
    case 2
    from from_guests_select_Inr [OF fetchData_Some [OF 2(1)]]
    have "filter (\<lambda>r. g_id r = gs_guestId s) (guests db) = [g]" by simp
    from filter_single_mem [OF this] have "g \<in> set (guests db)" by simp
    with inv have "0 \<le> photos_remaining g" by (simp add: quota_nonneg_def list_all_iff)
    with 2(2) have "0 \<le> photos_remaining g - 1"
      by (cases "has_unlocked_feed g") (simp_all add: capture_offered_def)
    from quota_nonneg_update2 [OF inv this 2(3)] show ?thesis unfolding st .
  qed
next
  case (Save_caption s pid typed fails)
  obtain t db1 where hs: "save_caption s pid typed fails db = (t, db1)"
    by (cases "save_caption s pid typed fails db")
  then have st: "snd (step a db) = db1" by (simp add: Save_caption)
  from save_caption_cases [OF hs] have "guests db1 = guests db" by simp
  with inv show ?thesis unfolding st by (rule quota_nonneg_same)
next
  case (Delete s pid env)
  obtain t db1 where hd: "delete_photo s pid env db = (t, db1)"
    by (cases "delete_photo s pid env db")
  then have st: "snd (step a db) = db1" by (simp add: Delete)
  consider "guests db1 = guests db"
    | g where "filter (\<lambda>r. g_id r = gs_guestId s) (guests db) = [g]"
        "guests db1 = map (\<lambda>r. if g_id r = gs_guestId s
            then r\<lparr>photos_remaining := min (photos_remaining g + 1) 10\<rparr> else r) (guests db)"
  proof -
    from delete_photo_cases [OF hd]
    consider (same) "guests db1 = guests db"
      | (deleted) g where "filter (\<lambda>r. g_id r = gs_guestId s) (guests db) = [g]"
          "guests db1
            = (if select_fails env \<or> restore_fails env then guests db
               else map (\<lambda>r. if g_id r = gs_guestId s
                              then r\<lparr>photos_remaining := min (photos_remaining g + 1) 10\<rparr>
                              else r) (guests db))"
      by blast
    then show ?thesis
    proof cases
      case same
      then show ?thesis by (rule that(1))
    next
      case deleted
      show ?thesis
      proof (cases "select_fails env \<or> restore_fails env")
        case True
        with deleted(2) have "guests db1 = guests db" by simp
        then show ?thesis by (rule that(1))
      next
        case False
        with deleted(2) have "guests db1 = map (\<lambda>r. if g_id r = gs_guestId s
            then r\<lparr>photos_remaining := min (photos_remaining g + 1) 10\<rparr> else r) (guests db)"
          by simp
        with deleted(1) show ?thesis by (rule that(2))
      qed
    qed
  qed
  then show ?thesis
  proof cases
    case 1
    with inv show ?thesis unfolding st by (rule quota_nonneg_same)
  next
    case 2
    from filter_single_mem [OF 2(1)] inv have "0 \<le> photos_remaining g"
      by (simp add: quota_nonneg_def list_all_iff)
    then have "0 \<le> min (photos_remaining g + 1) 10" by simp
    from quota_nonneg_update [OF inv this 2(2)] show ?thesis unfolding st .
  qed
qed

text \<open>
  Claim C5. In every run of joins, uploads, caption edits and deletes, with any of the
  backend calls refused, every guest row keeps \<open>photos_remaining >= 0\<close>: a join writes the
  default (10 or 20), an upload is offered only at a non-zero value and writes one less, and
  a delete writes \<open>min (photos_remaining + 1) 10\<close>.
\<close>

theorem photos_remaining_never_negative:
  "quota_nonneg db \<Longrightarrow> quota_nonneg (run acts db)"
proof (induction acts arbitrary: db)
  case Nil
  then show ?case by simp
next
  case (Cons a acts)
  from Cons.IH [OF quota_nonneg_step [OF Cons.prems]] show ?case by simp
qed

lemma filter_update_other:
  assumes "\<And>r. g_id (f r) = g_id r" and "gid \<noteq> g"
  shows "filter (\<lambda>r. g_id r = g) (map (\<lambda>r. if g_id r = gid then f r else r) xs)
    = filter (\<lambda>r. g_id r = g) xs"
  using assms by (induction xs) simp_all

lemma filter_append_new:
  assumes "filter (\<lambda>r. g_id r = g) xs = [r]" and "g_id row \<notin> set (map g_id xs)"
  shows "filter (\<lambda>r. g_id r = g) (xs @ [row]) = [r]"
proof -
  from filter_single_mem [OF assms(1)] have "r \<in> set xs" "g_id r = g" by simp_all
  then have "g \<in> g_id ` set xs" by blast
  with assms(2) have "g_id row \<noteq> g" by auto
  with assms(1) show ?thesis by simp
qed

lemma not_captured: "\<forall>n. t \<noteq> Some (Moment_captured n) \<Longrightarrow> \<not> captured t"
  by (cases t) (simp_all add: captured_def split: toast.splits)

text \<open>The row of guest \<open>g\<close> across one action: what happens to the unlock flag.\<close>

lemma step_flag:
  assumes row: "filter (\<lambda>r. g_id r = g) (guests db) = [r]"
  shows "\<exists>r'. filter (\<lambda>r. g_id r = g) (guests (snd (step a db))) = [r']
    \<and> has_unlocked_feed r'
        = (has_unlocked_feed r \<or> (is_upload_of g a \<and> captured (fst (step a db))))"
proof (cases a)
  case (Join eventCode guestName_state env)
  obtain t gs db1 where hj: "handleJoin eventCode guestName_state env db = (t, gs, db1)"
    by (cases "handleJoin eventCode guestName_state env db")
  then have st: "snd (step a db) = db1" by (simp add: Join)
  have nu: "\<not> is_upload_of g a" by (simp add: Join)
  from handleJoin_cases [OF hj]
  consider "guests db1 = guests db"
    | new where "guests db1 = guests db @ [new]" "g_id new \<notin> set (map g_id (guests db))"
    by blast
  then have "filter (\<lambda>r. g_id r = g) (guests db1) = [r]"
  proof cases
    case 1
    with row show ?thesis by simp
  next
    case 2
    from filter_append_new [OF row 2(2)] show ?thesis unfolding 2(1) .
  qed
  with nu show ?thesis unfolding st by simp
next
  case (Capture s sel typed env)
  obtain t db1 where hc: "capture s sel typed env db = (t, db1)"
    by (cases "capture s sel typed env db")
  then have st: "snd (step a db) = db1" "fst (step a db) = t" by (simp_all add: Capture)
  have iu: "is_upload_of g a = (gs_guestId s = g)" by (simp add: Capture)
  from capture_cases [OF hc]
  consider (failed) "\<forall>n. t \<noteq> Some (Moment_captured n)" "guests db1 = guests db"
    | (captured) g' ev where "fetchData s db = Some (g', ev)"
        "t = Some (Moment_captured (photos_remaining g' - 1))"
        "guests db1 = map (\<lambda>r. if g_id r = gs_guestId s
            then r\<lparr>photos_remaining := photos_remaining g' - 1, has_unlocked_feed := True\<rparr>
            else r) (guests db)"
    by blast
  then show ?thesis
  proof cases
    case failed
    from not_captured [OF failed(1)] row failed(2) show ?thesis unfolding st by simp
  next
    case captured
    have ct: "captured t" by (simp add: captured(2) captured_def)
    show ?thesis
    proof (cases "gs_guestId s = g")
      case True
      have "filter (\<lambda>r. g_id r = g) (guests db1)
          = map (\<lambda>r. r\<lparr>photos_remaining := photos_remaining g' - 1, has_unlocked_feed := True\<rparr>)
              (filter (\<lambda>r. g_id r = g) (guests db))"
        unfolding captured(3) True by (rule filter_update_same) simp
      with row True ct iu show ?thesis unfolding st by simp
    next
      case False
      have "filter (\<lambda>r. g_id r = g) (guests db1) = filter (\<lambda>r. g_id r = g) (guests db)"
        unfolding captured(3) by (rule filter_update_other) (simp_all add: False)
      with row False iu show ?thesis unfolding st by simp
    qed
  qed
next
  case (Save_caption s pid typed fails)
  obtain t db1 where hs: "save_caption s pid typed fails db = (t, db1)"
    by (cases "save_caption s pid typed fails db")
  then have st: "snd (step a db) = db1" by (simp add: Save_caption)
  have nu: "\<not> is_upload_of g a" by (simp add: Save_caption)
  from save_caption_cases [OF hs] have "guests db1 = guests db" by simp
  with row nu show ?thesis unfolding st by simp
next
  case (Delete s pid env)
  obtain t db1 where hd: "delete_photo s pid env db = (t, db1)"
    by (cases "delete_photo s pid env db")
  then have st: "snd (step a db) = db1" by (simp add: Delete)
  have nu: "\<not> is_upload_of g a" by (simp add: Delete)
  from delete_photo_cases [OF hd]
  consider (same) "guests db1 = guests db"
    | (deleted) g' where "filter (\<lambda>r. g_id r = gs_guestId s) (guests db) = [g']"
        "guests db1
          = (if select_fails env \<or> restore_fails env then guests db
             else map (\<lambda>r. if g_id r = gs_guestId s
                            then r\<lparr>photos_remaining := min (photos_remaining g' + 1) 10\<rparr>
                            else r) (guests db))"
    by blast
  then show ?thesis
  proof cases
    case same
    with row nu show ?thesis unfolding st by simp
  next
    case deleted
    show ?thesis
    proof (cases "select_fails env \<or> restore_fails env")
      case True
      with deleted(2) have "guests db1 = guests db" by simp
      with row nu show ?thesis unfolding st by simp
    next
      case False
      with deleted(2) have gu: "guests db1 = map (\<lambda>r. if g_id r = gs_guestId s
          then r\<lparr>photos_remaining := min (photos_remaining g' + 1) 10\<rparr> else r) (guests db)"
        by simp
      show ?thesis
      proof (cases "gs_guestId s = g")
        case True
        have "filter (\<lambda>r. g_id r = g) (guests db1)
            = map (\<lambda>r. r\<lparr>photos_remaining := min (photos_remaining g' + 1) 10\<rparr>)
                (filter (\<lambda>r. g_id r = g) (guests db))"
          unfolding gu True by (rule filter_update_same) simp
        with row nu show ?thesis unfolding st by simp
      next
        case False
        have "filter (\<lambda>r. g_id r = g) (guests db1) = filter (\<lambda>r. g_id r = g) (guests db)"
          unfolding gu by (rule filter_update_other) (simp_all add: False)
        with row nu show ?thesis unfolding st by simp
      qed
    qed
  qed
qed

lemma run_flag:
  assumes "filter (\<lambda>r. g_id r = g) (guests db) = [r]"
  shows "\<exists>r'. filter (\<lambda>r. g_id r = g) (guests (run acts db)) = [r']
    \<and> has_unlocked_feed r' = (has_unlocked_feed r \<or> 0 < uploads_done g acts db)"
  using assms
proof (induction acts arbitrary: db r)
  case Nil
  then show ?case by simp
next
  case (Cons a acts)
  from step_flag [OF Cons.prems, of a] obtain r1 where
    r1: "filter (\<lambda>r. g_id r = g) (guests (snd (step a db))) = [r1]
      \<and> has_unlocked_feed r1
        = (has_unlocked_feed r \<or> (is_upload_of g a \<and> captured (fst (step a db))))" ..
  from Cons.IH [OF r1 [THEN conjunct1]] obtain r' where
    r': "filter (\<lambda>r. g_id r = g) (guests (run acts (snd (step a db)))) = [r']
      \<and> has_unlocked_feed r'
          = (has_unlocked_feed r1 \<or> 0 < uploads_done g acts (snd (step a db)))" ..
  have "filter (\<lambda>r. g_id r = g) (guests (run (a # acts) db)) = [r']"
    using r' by simp
  moreover have "has_unlocked_feed r'
      = (has_unlocked_feed r \<or> 0 < uploads_done g (a # acts) db)"
    using r' [THEN conjunct2] r1 [THEN conjunct2] by auto
  ultimately show ?case by (intro exI [of _ r'] conjI)
qed

text \<open>
  Claim C2. For a guest with a row, after any run the guest still has exactly one row, and
  its \<open>has_unlocked_feed\<close> is true exactly when it was true before the run or the run
  contains a successful upload of this guest. A join creates the row with the flag false, so
  from the join on the flag says whether the guest has uploaded; once true it stays true,
  whatever is deleted or edited afterwards.
\<close>

theorem unlock_flag_iff_uploaded:
  assumes "from_guests_select False g db = Inr r"
  shows "\<exists>r'. from_guests_select False g (run acts db) = Inr r'
    \<and> has_unlocked_feed r' = (has_unlocked_feed r \<or> 0 < uploads_done g acts db)"
proof -
  from from_guests_select_Inr [OF assms]
  have "filter (\<lambda>r. g_id r = g) (guests db) = [r]" by simp
  from run_flag [OF this, of acts] obtain r' where
    r': "filter (\<lambda>r. g_id r = g) (guests (run acts db)) = [r']
      \<and> has_unlocked_feed r' = (has_unlocked_feed r \<or> 0 < uploads_done g acts db)" ..
  then have "from_guests_select False g (run acts db) = Inr r'"
    by (simp add: from_guests_select_def single_def)
  with r' show ?thesis by (intro exI [of _ r']) simp
qed

theorem photos_remaining_never_negative_witness:
  "quota_nonneg demo_db0
   \<and> quota_nonneg (run [demo_join, demo_capture, demo_delete, demo_capture] demo_db0)
   \<and> map photos_remaining (guests (run [demo_join, demo_capture, demo_delete, demo_capture] demo_db0))
       = [9]"
proof -
  have h: "quota_nonneg demo_db0" by (simp add: quota_nonneg_def demo_db0_def)
  have "map photos_remaining
      (guests (run [demo_join, demo_capture, demo_delete, demo_capture] demo_db0)) = [9]"
    by code_simp
  with h photos_remaining_never_negative [OF h, of "[demo_join, demo_capture, demo_delete, demo_capture]"]
  show ?thesis by simp
qed

theorem unlock_flag_iff_uploaded_witness:
  "from_guests_select False ''g1'' (run [demo_join] demo_db0) = Inr demo_guest0
   \<and> \<not> has_unlocked_feed demo_guest0
   \<and> uploads_done ''g1'' [demo_capture, demo_delete] (run [demo_join] demo_db0) = 1
   \<and> photos (run [demo_capture, demo_delete] (run [demo_join] demo_db0)) = []
   \<and> (\<exists>r'. from_guests_select False ''g1''
              (run [demo_capture, demo_delete] (run [demo_join] demo_db0)) = Inr r'
          \<and> has_unlocked_feed r')"
proof -
  have h1: "from_guests_select False ''g1'' (run [demo_join] demo_db0) = Inr demo_guest0"
    by code_simp
  have h2: "\<not> has_unlocked_feed demo_guest0" by (simp add: demo_guest0_def)
  have h3: "uploads_done ''g1'' [demo_capture, demo_delete] (run [demo_join] demo_db0) = 1"
    by code_simp
  have h4: "photos (run [demo_capture, demo_delete] (run [demo_join] demo_db0)) = []"
    by code_simp
  from unlock_flag_iff_uploaded [OF h1, of "[demo_capture, demo_delete]"] obtain r' where
    r': "from_guests_select False ''g1''
           (run [demo_capture, demo_delete] (run [demo_join] demo_db0)) = Inr r'
       \<and> has_unlocked_feed r'
           = (has_unlocked_feed demo_guest0
              \<or> 0 < uploads_done ''g1'' [demo_capture, demo_delete] (run [demo_join] demo_db0))" ..
  from r' [THEN conjunct2] have "has_unlocked_feed r'" unfolding h3 by simp
  with r' [THEN conjunct1] h1 h2 h3 h4 show ?thesis by blast
qed

section \<open>Counting credits and photos\<close>




















section \<open>Captions\<close>

lemma captions_valid_step:
  assumes inv: "captions_valid db"
  shows "captions_valid (snd (step a db))"
proof (cases a)
  case (Join eventCode guestName_state env)
  obtain t gs db1 where hj: "handleJoin eventCode guestName_state env db = (t, gs, db1)"
    by (cases "handleJoin eventCode guestName_state env db")
  then have st: "snd (step a db) = db1" by (simp add: Join)
  from handleJoin_cases [OF hj] inv show ?thesis unfolding st by (simp add: captions_valid_def)
next
  case (Capture s sel typed env)
  obtain t db1 where hc: "capture s sel typed env db = (t, db1)"
    by (cases "capture s sel typed env db")
  then have st: "snd (step a db) = db1" by (simp add: Capture)
  from capture_cases [OF hc]
  consider "photos db1 = photos db"
    | new where "photos db1 = photos db @ [new]" "photos_caption_length (caption new)"
    by blast
  then show ?thesis using inv unfolding st by cases (simp_all add: captions_valid_def)
next
  case (Save_caption s pid typed fails)
  obtain t db1 where hs: "save_caption s pid typed fails db = (t, db1)"
    by (cases "save_caption s pid typed fails db")
  then have st: "snd (step a db) = db1" by (simp add: Save_caption)
  from save_caption_cases [OF hs]
  consider "photos db1 = photos db"
    | c where "photos_caption_length c"
        "photos db1 = map (\<lambda>r. if p_id r = pid then r\<lparr>caption := c\<rparr> else r) (photos db)"
    by blast
  then show ?thesis
  proof cases
    case 1
    with inv show ?thesis unfolding st by (simp add: captions_valid_def)
  next
    case 2
    show ?thesis unfolding st captions_valid_def 2(2)
      by (rule list_all_map_update) (use inv 2(1) in \<open>simp_all add: captions_valid_def\<close>)
  qed
next
  case (Delete s pid env)
  obtain t db1 where hd: "delete_photo s pid env db = (t, db1)"
    by (cases "delete_photo s pid env db")
  then have st: "snd (step a db) = db1" by (simp add: Delete)
  from delete_photo_cases [OF hd]
  consider "photos db1 = photos db"
    | "photos db1 = filter (\<lambda>r. p_id r \<noteq> pid) (photos db)"
    by blast
  then show ?thesis using inv unfolding st
    by cases (simp_all add: captions_valid_def list_all_iff)
qed

lemma length_handleEditCaption:
  "photos_caption_length (caption p) \<Longrightarrow> length (snd (handleEditCaption p)) \<le> 150"
  by (cases "caption p") (simp_all add: handleEditCaption_def photos_caption_length_def)

text \<open>
  Claim C6. The database refuses a photo row, and a caption update of an existing row, whose
  caption is non-null with a length outside 1 to 150: when nothing else is wrong the error
  is the check violation. The client never submits one. Whatever is typed into the caption
  field, \<open>handleUpload\<close> never gets a check violation, and the row it inserts has the trimmed
  text as caption, or null when the trimmed text is empty, which is valid; and
  \<open>handleSaveCaption\<close>, editing a photo whose caption is valid, never gets a check violation
  and on success stores the trimmed text, or null when it is empty. Every action keeps all
  stored captions valid.
\<close>

theorem caption_length_enforced:
  "(\<not> photos_caption_length (caption row) \<longrightarrow>
      (\<exists>e. from_photos_insert fails row db = Inl e)
      \<and> (\<not> fails \<and> p_id row \<notin> set (map p_id (photos db)) \<longrightarrow>
           from_photos_insert fails row db = Inl Check_violation))
   \<and> (\<not> photos_caption_length c \<and> pid \<in> set (map p_id (photos db)) \<longrightarrow>
        (\<exists>e. from_photos_update_caption fails pid c db = Inl e)
        \<and> (\<not> fails \<longrightarrow> from_photos_update_caption fails pid c db = Inl Check_violation))
   \<and> fst (handleUpload props sel (foldl onChange [] typed) env db)
        \<noteq> Some (Upload_failed Check_violation)
   \<and> (photos (snd (handleUpload props sel (foldl onChange [] typed) env db)) = photos db
       \<or> (\<exists>new. photos (snd (handleUpload props sel (foldl onChange [] typed) env db))
                  = photos db @ [new]
             \<and> caption new
                 = (if trim (foldl onChange [] typed) = [] then None
                    else Some (trim (foldl onChange [] typed)))
             \<and> photos_caption_length (caption new)))
   \<and> (photos_caption_length (caption p) \<longrightarrow>
        fst (handleSaveCaption (fst (handleEditCaption p))
               (foldl onChange (snd (handleEditCaption p)) typed) fails db)
          \<noteq> Some (Failed_to_update_caption Check_violation)
        \<and> (fst (handleSaveCaption (fst (handleEditCaption p))
                  (foldl onChange (snd (handleEditCaption p)) typed) fails db)
             = Some Caption_updated \<longrightarrow>
           (\<forall>q \<in> set (photos (snd (handleSaveCaption (fst (handleEditCaption p))
                  (foldl onChange (snd (handleEditCaption p)) typed) fails db))).
              p_id q = p_id p \<longrightarrow>
                caption q
                  = (if trim (foldl onChange (snd (handleEditCaption p)) typed) = [] then None
                     else Some (trim (foldl onChange (snd (handleEditCaption p)) typed)))
                \<and> photos_caption_length (caption q))))
   \<and> (captions_valid db \<longrightarrow> captions_valid (snd (step a db)))"
proof (intro conjI impI)
  assume "\<not> photos_caption_length (caption row)"
  then show "\<exists>e. from_photos_insert fails row db = Inl e"
    by (simp add: from_photos_insert_def)
next
  assume "\<not> photos_caption_length (caption row)"
    and "\<not> fails \<and> p_id row \<notin> set (map p_id (photos db))"
  then show "from_photos_insert fails row db = Inl Check_violation"
    by (simp add: from_photos_insert_def)
next
  assume "\<not> photos_caption_length c \<and> pid \<in> set (map p_id (photos db))"
  then show "\<exists>e. from_photos_update_caption fails pid c db = Inl e"
    by (simp add: from_photos_update_caption_def)
next
  assume "\<not> photos_caption_length c \<and> pid \<in> set (map p_id (photos db))" and "\<not> fails"
  then show "from_photos_update_caption fails pid c db = Inl Check_violation"
    by (simp add: from_photos_update_caption_def)
next
  have "length (foldl onChange [] typed) \<le> 150" by (rule length_onChange) simp
  then show "fst (handleUpload props sel (foldl onChange [] typed) env db)
      \<noteq> Some (Upload_failed Check_violation)"
    by (intro handleUpload_no_check_violation) (simp add: MAX_CAPTION_LENGTH_def)
next
  define s where "s = foldl onChange [] typed"
  have len: "length s \<le> 150" unfolding s_def by (rule length_onChange) simp
  have cap: "\<And>f. caption (inserted_row props f s env) = (if trim s = [] then None else Some (trim s))"
    by (simp add: inserted_row_def)
  have ok: "\<And>f. photos_caption_length (caption (inserted_row props f s env))"
    using submitted_caption_ok [OF len] by (simp add: inserted_row_def)
  from handleUpload_photos [of props sel s env db] cap ok
  show "photos (snd (handleUpload props sel (foldl onChange [] typed) env db)) = photos db
       \<or> (\<exists>new. photos (snd (handleUpload props sel (foldl onChange [] typed) env db))
                  = photos db @ [new]
             \<and> caption new
                 = (if trim (foldl onChange [] typed) = [] then None
                    else Some (trim (foldl onChange [] typed)))
             \<and> photos_caption_length (caption new))"
    unfolding s_def [symmetric] by blast
next
  assume valid: "photos_caption_length (caption p)"
  define s where "s = foldl onChange (snd (handleEditCaption p)) typed"
  from valid have "length (snd (handleEditCaption p)) \<le> 150" by (rule length_handleEditCaption)
  then have len: "length s \<le> 150" unfolding s_def by (rule length_onChange)
  have ok: "photos_caption_length (if length (trim s) > 0 then Some (trim s) else None)"
    using len by (rule submitted_caption_ok)
  have ed: "fst (handleEditCaption p) = Some (p_id p)" by (simp add: handleEditCaption_def)
  show "fst (handleSaveCaption (fst (handleEditCaption p))
               (foldl onChange (snd (handleEditCaption p)) typed) fails db)
          \<noteq> Some (Failed_to_update_caption Check_violation)"
    unfolding s_def [symmetric] ed using ok
    by (simp add: handleSaveCaption_def Let_def from_photos_update_caption_def)
next
  assume valid: "photos_caption_length (caption p)"
    and saved: "fst (handleSaveCaption (fst (handleEditCaption p))
                  (foldl onChange (snd (handleEditCaption p)) typed) fails db)
             = Some Caption_updated"
  define s where "s = foldl onChange (snd (handleEditCaption p)) typed"
  from valid have "length (snd (handleEditCaption p)) \<le> 150" by (rule length_handleEditCaption)
  then have len: "length s \<le> 150" unfolding s_def by (rule length_onChange)
  have ok: "photos_caption_length (if length (trim s) > 0 then Some (trim s) else None)"
    using len by (rule submitted_caption_ok)
  have ed: "fst (handleEditCaption p) = Some (p_id p)" by (simp add: handleEditCaption_def)
  obtain t db1 where r: "handleSaveCaption (Some (p_id p)) s fails db = (t, db1)"
    by (cases "handleSaveCaption (Some (p_id p)) s fails db")
  from saved have t: "t = Some Caption_updated" unfolding s_def [symmetric] ed r by simp
  from handleSaveCaption_cases [OF r] t
  have db1: "photos db1 = map (\<lambda>r. if p_id r = p_id p
      then r\<lparr>caption := (if length (trim s) > 0 then Some (trim s) else None)\<rparr> else r) (photos db)"
    by auto
  show "\<forall>q \<in> set (photos (snd (handleSaveCaption (fst (handleEditCaption p))
                  (foldl onChange (snd (handleEditCaption p)) typed) fails db))).
              p_id q = p_id p \<longrightarrow>
                caption q
                  = (if trim (foldl onChange (snd (handleEditCaption p)) typed) = [] then None
                     else Some (trim (foldl onChange (snd (handleEditCaption p)) typed)))
                \<and> photos_caption_length (caption q)"
    unfolding s_def [symmetric] ed r snd_conv db1 using ok
    by (auto split: if_splits)
next
  assume "captions_valid db"
  then show "captions_valid (snd (step a db))" by (rule captions_valid_step)
qed

theorem caption_length_enforced_witness:
  "\<not> photos_caption_length (caption demo_long_caption_photo)
   \<and> p_id demo_long_caption_photo \<notin> set (map p_id (photos demo_db))
   \<and> from_photos_insert False demo_long_caption_photo demo_db = Inl Check_violation
   \<and> \<not> photos_caption_length (Some [])
   \<and> from_photos_update_caption False ''p1'' (Some []) demo_db = Inl Check_violation
   \<and> fst (handleUpload demo_props (Some demo_file)
            (foldl onChange [] [''  '', replicate 151 (CHR ''a'')]) demo_upload_env demo_db)
       = Some (Moment_captured 18)
   \<and> map caption (photos (snd (handleUpload demo_props (Some demo_file)
            (foldl onChange [] [''  '', replicate 151 (CHR ''a'')]) demo_upload_env demo_db)))
       = [Some ''hi'', None]
   \<and> photos_caption_length (caption demo_photo)
   \<and> fst (handleSaveCaption (fst (handleEditCaption demo_photo))
            (foldl onChange (snd (handleEditCaption demo_photo)) [''  '']) False demo_db)
       = Some Caption_updated
   \<and> map caption (photos (snd (handleSaveCaption (fst (handleEditCaption demo_photo))
            (foldl onChange (snd (handleEditCaption demo_photo)) [''  '']) False demo_db)))
       = [None]
   \<and> captions_valid demo_db
   \<and> captions_valid (snd (step demo_capture demo_db))"
proof -
  have h1: "\<not> photos_caption_length (caption demo_long_caption_photo)"
    by (simp add: photos_caption_length_def demo_long_caption_photo_def)
  have h1': "\<not> False \<and> p_id demo_long_caption_photo \<notin> set (map p_id (photos demo_db))"
    by (simp add: demo_long_caption_photo_def demo_db_def demo_photo_def)
  have h2: "\<not> photos_caption_length (Some []) \<and> ''p1'' \<in> set (map p_id (photos demo_db))"
    by (simp add: photos_caption_length_def demo_db_def demo_photo_def)
  have h3: "photos_caption_length (caption demo_photo)"
    by (simp add: photos_caption_length_def demo_photo_def)
  have h4: "captions_valid demo_db"
    by (simp add: captions_valid_def photos_caption_length_def demo_db_def demo_photo_def)
  have h5: "fst (handleSaveCaption (fst (handleEditCaption demo_photo))
            (foldl onChange (snd (handleEditCaption demo_photo)) [''  '']) False demo_db)
       = Some Caption_updated"
    by code_simp
  have h6: "map caption (photos (snd (handleSaveCaption (fst (handleEditCaption demo_photo))
            (foldl onChange (snd (handleEditCaption demo_photo)) [''  '']) False demo_db)))
       = [None]"
    by code_simp
  have h7: "fst (handleUpload demo_props (Some demo_file)
            (foldl onChange [] [''  '', replicate 151 (CHR ''a'')]) demo_upload_env demo_db)
       = Some (Moment_captured 18)"
    by code_simp
  have h8: "map caption (photos (snd (handleUpload demo_props (Some demo_file)
            (foldl onChange [] [''  '', replicate 151 (CHR ''a'')]) demo_upload_env demo_db)))
       = [Some ''hi'', None]"
    by code_simp
  from caption_length_enforced [of demo_long_caption_photo False demo_db "Some []" "''p1''"
      demo_props "Some demo_file" "[''  '', replicate 151 (CHR ''a'')]" demo_upload_env
      demo_photo demo_capture]
  have "(\<not> photos_caption_length (caption demo_long_caption_photo) \<longrightarrow>
          (\<not> False \<and> p_id demo_long_caption_photo \<notin> set (map p_id (photos demo_db)) \<longrightarrow>
             from_photos_insert False demo_long_caption_photo demo_db = Inl Check_violation))"
    and "(\<not> photos_caption_length (Some []) \<and> ''p1'' \<in> set (map p_id (photos demo_db)) \<longrightarrow>
          (\<not> False \<longrightarrow>
             from_photos_update_caption False ''p1'' (Some []) demo_db = Inl Check_violation))"
    and "captions_valid demo_db \<longrightarrow> captions_valid (snd (step demo_capture demo_db))"
    by blast+
  with h1 h1' h2 h4
  have "from_photos_insert False demo_long_caption_photo demo_db = Inl Check_violation
      \<and> from_photos_update_caption False ''p1'' (Some []) demo_db = Inl Check_violation
      \<and> captions_valid (snd (step demo_capture demo_db))"
    by blast
  with h1 h1' h2 h3 h4 h5 h6 h7 h8 show ?thesis by blast
qed

section \<open>Event codes\<close>

lemma handleJoin_normal_form:
  "trim (toUpperCase a) = trim (toUpperCase b) \<Longrightarrow>
     handleJoin a guestName_state env db = handleJoin b guestName_state env db"
  by (simp add: handleJoin_def)

lemma trim_Cons:
  assumes "trim s = c # cs"
  shows "\<not> isWhiteSpace c"
proof -
  define u where "u = dropWhile isWhiteSpace s"
  have t: "trim s = rev (dropWhile isWhiteSpace (rev u))" by (simp add: trim_def u_def)
  show ?thesis
  proof (cases u)
    case Nil
    with t assms show ?thesis by simp
  next
    case (Cons y ys)
    then have ny: "\<not> isWhiteSpace y" unfolding u_def by (metis hd_dropWhile list.sel(1) list.distinct(1))
    have "dropWhile isWhiteSpace (rev ys @ [y]) = dropWhile isWhiteSpace (rev ys) @ [y]"
      using ny by (simp add: dropWhile_append3)
    with t Cons have "trim s = y # rev (dropWhile isWhiteSpace (rev ys))" by simp
    with assms ny show ?thesis by simp
  qed
qed

text \<open>
  Claim C7 at a couple name with a leading space. \<open>generateEventCode\<close> keeps the space, so
  the stored code starts with white space, and the join form, which trims what it looks up,
  does not find the event: not with the code as stored, not with its lower-case form, and
  not with any other input.
\<close>

theorem join_misses_padded_code:
  "generateEventCode '' Al'' ''Bob'' ''0.1a2b3c'' = '' ALBOB-1A2B''
   \<and> map event_code (wedding_events demo_db_padded) = [''SARJAM-A1B2'', '' ALBOB-1A2B'']
   \<and> fst (handleJoin '' ALBOB-1A2B'' ''Guest'' demo_join_env demo_db_padded) = Event_not_found
   \<and> fst (handleJoin '' albob-1a2b '' ''Guest'' demo_join_env demo_db_padded) = Event_not_found
   \<and> fst (handleJoin ''sarjam-a1b2 '' ''Guest'' demo_join_env demo_db_padded)
       = Welcome ''Sarah'' ''James''"
  by code_simp

text \<open>No input of the join form reaches the event with the padded code.\<close>

lemma padded_code_unreachable:
  assumes "handleJoin x guestName_state env demo_db_padded = (t, Some s, d)"
  shows "gs_weddingEventId s = ''e1''"
proof -
  define k where "k = trim (toUpperCase x)"
  have ev: "wedding_events demo_db_padded
      = [demo_event,
         \<lparr>e_id = ''e2'', couple_user_id = ''u2'', couple_name = '' Al'', partner_name = ''Bob'',
          wedding_date = ''2026-07-01'', event_code = '' ALBOB-1A2B''\<rparr>]"
    by code_simp
  have ws: "isWhiteSpace (CHR '' '')" by code_simp
  have nk: "k \<noteq> '' ALBOB-1A2B''"
  proof
    assume "k = '' ALBOB-1A2B''"
    then have "trim (toUpperCase x) = CHR '' '' # ''ALBOB-1A2B''" by (simp add: k_def)
    from trim_Cons [OF this] ws show False by simp
  qed
  have look: "from_wedding_events_select_by_code (lookup_fails env) k demo_db_padded
      = (if lookup_fails env then Inl Unavailable
         else if k = ''SARJAM-A1B2'' then Inr (Some demo_event) else Inr None)"
    using nk by (simp add: from_wedding_events_select_by_code_def ev maybeSingle_def demo_event_def)
  show ?thesis
  proof (cases "lookup_fails env \<or> k \<noteq> ''SARJAM-A1B2''")
    case True
    with assms look show ?thesis
      unfolding handleJoin_def k_def [symmetric] by (auto split: if_splits)
  next
    case False
    with look have l: "from_wedding_events_select_by_code (lookup_fails env) k demo_db_padded
        = Inr (Some demo_event)" by simp
    from assms show ?thesis
      unfolding handleJoin_def k_def [symmetric] l Let_def
      by (auto split: sum.splits simp: demo_event_def)
  qed
qed

end
